theory Spec2Isabelle
  imports Main "HOL-Library.Sublist"
begin

section \<open>The history purge tool: rd\_purge\_history.py\<close>

text \<open>
  The script talks to a remote server over HTTP: it reads pages of the execution history
  with GET requests and deletes executions in bulk with POST requests. The model passes
  a world through every function: the state of the remote server, and the trace of what
  the script did to its surroundings (requests sent, log lines written, pauses), in order.
  Python's integers are unbounded, so every number is an \<open>int\<close>. An exception is
  a value of type \<open>error\<close>, returned with the world as it was when it was raised.
\<close>

subsection \<open>Data\<close>

datatype error =
    HTTPError            \<comment> \<open>\<open>raise_for_status\<close>, or the transport failed\<close>
  | ParseError           \<comment> \<open>\<open>etree.fromstring\<close> on a body that is not XML\<close>
  | DocumentError        \<comment> \<open>AttributeError, TypeError or ValueError while reading a document\<close>
  | ZeroDivisionError    \<comment> \<open>\<open>divmod\<close> by zero\<close>

text \<open>
  The request \<open>history?project=p&offset=o&max=m\<close>, with \<open>&jobFilter=f\<close> appended when
  a filter is given.
\<close>

record history_request =
  rq_project :: string
  rq_jobFilter :: "string option"
  rq_offset :: int
  rq_max :: int

text \<open>
  What the script reads in a history document: the attribute \<open>total\<close> of the root
  (\<open>None\<close> when \<open>int\<close> would raise on it), and for each child of the root the
  \<open>id\<close> of its \<open>execution\<close> element (\<open>None\<close> when the child has no such element,
  where \<open>.get\<close> on the result of \<open>find\<close> raises).
\<close>

record 'i history_doc =
  total_attr :: "int option"
  events :: "'i option list"

text \<open>
  What the script reads in the answer to a bulk delete: the \<open>count\<close> of the
  \<open>successful\<close> element (\<open>None\<close> when the element or the attribute is missing or is
  not an integer), the attribute \<open>allsuccessful\<close> as \<open>strtobool\<close> reads it
  (\<open>None\<close> when it raises), and the \<open>message\<close> attribute of every \<open>execution\<close>
  element.
\<close>

record delete_doc =
  successful_count :: "int option"
  allsuccessful :: "bool option"
  messages :: "string option list"

text \<open>
  The remote server, as the script sees it through \<open>requests.get\<close> and
  \<open>requests.post\<close>: a state machine that answers each request with an error or a
  document.
\<close>

record ('s, 'i) remote =
  history_GET :: "'s \<Rightarrow> history_request \<Rightarrow> (error + 'i history_doc) \<times> 's"
  delete_POST :: "'s \<Rightarrow> 'i list \<Rightarrow> (error + delete_doc) \<times> 's"

datatype 'i event =
    EvGet history_request          \<comment> \<open>GET \<open>history?...\<close>\<close>
  | EvPost "'i list"               \<comment> \<open>POST \<open>executions/delete\<close> with these ids\<close>
  | EvInfoPlan int int             \<comment> \<open>info: "d/t histories are going to be deleted.."\<close>
  | EvInfoPurge nat "'i list"      \<comment> \<open>info: "Purge n entries: ids"\<close>
  | EvError "string option set"    \<comment> \<open>error: "error-messages:..."\<close>
  | EvSleep                        \<comment> \<open>\<open>time.sleep(0.1)\<close>\<close>

record ('s, 'i) world =
  server :: 's
  trace :: "'i event list"

definition emit :: "'i event \<Rightarrow> ('s, 'i) world \<Rightarrow> ('s, 'i) world" where
  "emit e w = w\<lparr>trace := trace w @ [e]\<rparr>"

subsection \<open>Python's arithmetic and slicing\<close>

text \<open>\<open>divmod(a, b)\<close>: floor division, the remainder has the sign of \<open>b\<close>.\<close>

definition py_divmod :: "int \<Rightarrow> int \<Rightarrow> error + (int \<times> int)" where
  "py_divmod a b = (if b = 0 then Inl ZeroDivisionError else Inr (a div b, a mod b))"

text \<open>\<open>range(n)\<close>: empty when \<open>n \<le> 0\<close>.\<close>

definition py_range :: "int \<Rightarrow> int list" where
  "py_range n = map int [0..<nat n]"

text \<open>\<open>xs[start:]\<close>: a negative start counts from the end, and both are clamped.\<close>

definition slice_from :: "'a list \<Rightarrow> int \<Rightarrow> 'a list" where
  "slice_from xs start =
     (let n = int (length xs);
          k = (if start < 0 then max 0 (n + start) else min start n)
      in drop (nat k) xs)"

subsection \<open>Reading the history\<close>

text \<open>
  Lines 20 to 27: the request that \<open>search_history\<close> builds. The filter is left out
  when it is \<open>None\<close> or the empty string (both are false in Python).
\<close>

definition request_of :: "string \<Rightarrow> string option \<Rightarrow> int \<Rightarrow> int \<Rightarrow> history_request" where
  "request_of project job_filter offset hmax =
     \<lparr>rq_project = project,
      rq_jobFilter = (if job_filter = None \<or> job_filter = Some [] then None else job_filter),
      rq_offset = offset, rq_max = hmax\<rparr>"

definition search_history ::
  "('s, 'i) remote \<Rightarrow> string \<Rightarrow> string option \<Rightarrow> int \<Rightarrow> int \<Rightarrow> ('s, 'i) world
     \<Rightarrow> (error + 'i history_doc) \<times> ('s, 'i) world" where
  "search_history client project job_filter offset hmax w =
     (let request = request_of project job_filter offset hmax;
          (res, s) = history_GET client (server w) request
      in (res, w\<lparr>server := s, trace := trace w @ [EvGet request]\<rparr>))"

definition get_execution_ids ::
  "('s, 'i) remote \<Rightarrow> string \<Rightarrow> string option \<Rightarrow> int \<Rightarrow> int \<Rightarrow> ('s, 'i) world
     \<Rightarrow> (error + 'i list) \<times> ('s, 'i) world" where
  "get_execution_ids client project job_filter offset hmax w =
     (case search_history client project job_filter offset hmax w of
        (Inl e, w1) \<Rightarrow> (Inl e, w1)
      | (Inr root, w1) \<Rightarrow>
          (case those (events root) of
             None \<Rightarrow> (Inl DocumentError, w1)
           | Some ids \<Rightarrow> (Inr ids, w1)))"

definition get_history_total ::
  "('s, 'i) remote \<Rightarrow> string \<Rightarrow> string option \<Rightarrow> ('s, 'i) world
     \<Rightarrow> (error + int) \<times> ('s, 'i) world" where
  "get_history_total client project job_filter w =
     (case search_history client project job_filter 0 0 w of
        (Inl e, w1) \<Rightarrow> (Inl e, w1)
      | (Inr history, w1) \<Rightarrow>
          (case total_attr history of
             None \<Rightarrow> (Inl DocumentError, w1)
           | Some t \<Rightarrow> (Inr t, w1)))"

subsection \<open>Deleting a batch\<close>

definition delete_executions ::
  "('s, 'i) remote \<Rightarrow> 'i list \<Rightarrow> bool \<Rightarrow> ('s, 'i) world \<Rightarrow> (error + int) \<times> ('s, 'i) world" where
  "delete_executions client ids dry_run w =
     (let w0 = emit (EvInfoPurge (length ids) ids) w in
      if \<not> dry_run then
        (let (res, s) = delete_POST client (server w0) ids;
             w1 = w0\<lparr>server := s, trace := trace w0 @ [EvPost ids]\<rparr>
         in case res of
              Inl e \<Rightarrow> (Inl e, w1)
            | Inr fs \<Rightarrow>
                (case successful_count fs of
                   None \<Rightarrow> (Inl DocumentError, w1)
                 | Some count \<Rightarrow>
                     (case allsuccessful fs of
                        None \<Rightarrow> (Inl DocumentError, w1)
                      | Some ok \<Rightarrow>
                          if ok then (Inr count, w1)
                          else (Inr count, emit (EvError (set (messages fs))) w1))))
      else (Inr 0, w0))"

subsection \<open>The purge\<close>

text \<open>Lines 54 and 55: the clamped keep count and the number of deletions.\<close>

definition keep_clamped :: "int \<Rightarrow> int \<Rightarrow> int" where
  "keep_clamped total' keep_history_size = min total' keep_history_size"

definition deletions_of :: "int \<Rightarrow> int \<Rightarrow> int \<Rightarrow> int" where
  "deletions_of total' keep_history_size max_delete_size =
     min max_delete_size (total' - keep_clamped total' keep_history_size)"

text \<open>
  The \<open>for\<close> loop of lines 63 to 74, over the values \<open>i\<close> still to come. It carries the
  variables \<open>offset\<close> and \<open>deleted\<close>, which the code after the loop reads.
\<close>

fun purge_chunks ::
  "('s, 'i) remote \<Rightarrow> string \<Rightarrow> string option \<Rightarrow> int \<Rightarrow> int \<Rightarrow> bool \<Rightarrow> int list
     \<Rightarrow> int \<times> int \<Rightarrow> ('s, 'i) world \<Rightarrow> (error + (int \<times> int)) \<times> ('s, 'i) world" where
  "purge_chunks client project job_filter total' chunk_size dry_run [] (offset, deleted) w =
     (Inr (offset, deleted), w)"
| "purge_chunks client project job_filter total' chunk_size dry_run (i # rest) (offset, deleted) w =
     (let offset' = total' - chunk_size * (i + 1) in
      case get_execution_ids client project job_filter offset' chunk_size w of
        (Inl e, w1) \<Rightarrow> (Inl e, w1)
      | (Inr ids, w1) \<Rightarrow>
          (case delete_executions client (slice_from ids (- chunk_size)) dry_run w1 of
             (Inl e, w2) \<Rightarrow> (Inl e, w2)
           | (Inr n, w2) \<Rightarrow>
               purge_chunks client project job_filter total' chunk_size dry_run rest
                 (offset', deleted + n) (emit EvSleep w2)))"

definition purge_history ::
  "('s, 'i) remote \<Rightarrow> string \<Rightarrow> string option \<Rightarrow> int \<Rightarrow> int \<Rightarrow> int \<Rightarrow> bool
     \<Rightarrow> ('s, 'i) world \<Rightarrow> (error + int) \<times> ('s, 'i) world" where
  "purge_history client project job_filter keep_history_size chunk_size max_delete_size dry_run w =
     (case get_history_total client project job_filter w of
        (Inl e, w1) \<Rightarrow> (Inl e, w1)
      | (Inr total', w1) \<Rightarrow>
          (let deletions = deletions_of total' keep_history_size max_delete_size;
               w2 = emit (EvInfoPlan deletions total') w1
           in case py_divmod deletions chunk_size of
                Inl e \<Rightarrow> (Inl e, w2)
              | Inr (chunk_num, remains) \<Rightarrow>
                  (case purge_chunks client project job_filter total' chunk_size dry_run
                          (py_range chunk_num) (total', 0) w2 of
                     (Inl e, w3) \<Rightarrow> (Inl e, w3)
                   | (Inr (offset, deleted), w3) \<Rightarrow>
                       if remains > 0 then
                         (case get_execution_ids client project job_filter
                                 (offset - remains) remains w3 of
                            (Inl e, w4) \<Rightarrow> (Inl e, w4)
                          | (Inr ids, w4) \<Rightarrow>
                              (case delete_executions client ids dry_run w4 of
                                 (Inl e, w5) \<Rightarrow> (Inl e, w5)
                               | (Inr n, w5) \<Rightarrow> (Inr (deleted + n), w5)))
                       else (Inr deleted, w3))))"

subsection \<open>Reading a trace\<close>

fun get_requests :: "'i event list \<Rightarrow> history_request list" where
  "get_requests [] = []"
| "get_requests (EvGet rq # es) = rq # get_requests es"
| "get_requests (e # es) = get_requests es"

fun post_batches :: "'i event list \<Rightarrow> 'i list list" where
  "post_batches [] = []"
| "post_batches (EvPost ids # es) = ids # post_batches es"
| "post_batches (e # es) = post_batches es"

text \<open>
  The batches handed to \<open>delete_executions\<close>: it logs each one, in a dry run too.
\<close>

fun purge_batches :: "'i event list \<Rightarrow> 'i list list" where
  "purge_batches [] = []"
| "purge_batches (EvInfoPurge n ids # es) = ids # purge_batches es"
| "purge_batches (e # es) = purge_batches es"

subsection \<open>A sample remote\<close>

text \<open>
  A server to run the script against. It holds the ids of the executions of one project,
  most recent first, and answers a history request with their number and the window that starts at
  \<open>offset\<close> and holds at most \<open>max + surplus\<close> ids (a server that honours
  \<open>max\<close> has \<open>surplus = 0\<close>). A delete request removes every listed execution
  that exists and is not in \<open>protected\<close>; when some could not be removed the answer
  says so, with the message the source quotes as an example.
\<close>

definition sample_remote :: "nat \<Rightarrow> int list \<Rightarrow> (int list, int) remote" where
  "sample_remote surplus protected =
     \<lparr>history_GET = (\<lambda>s rq.
        (Inr \<lparr>total_attr = Some (int (length s)),
              events = map Some (take (nat (rq_max rq) + surplus) (drop (nat (rq_offset rq)) s))\<rparr>,
         s)),
      delete_POST = (\<lambda>s ids.
        (let gone = filter (\<lambda>x. x \<in> set s \<and> x \<notin> set protected) ids
         in (Inr \<lparr>successful_count = Some (int (length gone)),
                   allsuccessful = Some (length gone = length ids),
                   messages = (if length gone = length ids then []
                               else [Some ''Unauthorized: Delete execution in project xxx''])\<rparr>,
             filter (\<lambda>x. x \<notin> set gone) s)))\<rparr>"

definition start :: "'s \<Rightarrow> ('s, 'i) world" where
  "start s = \<lparr>server = s, trace = []\<rparr>"

subsection \<open>The request of a full chunk\<close>

text \<open>Lines 67 to 69: what the loop asks for in its round \<open>i\<close>.\<close>

definition chunk_request :: "string \<Rightarrow> string option \<Rightarrow> int \<Rightarrow> int \<Rightarrow> int \<Rightarrow> history_request" where
  "chunk_request p jf t cs i = request_of p jf (t - cs * (i + 1)) cs"

text \<open>
  Lines 63 to 79: the history requests of a whole purge of \<open>d\<close> deletions, in order:
  one for each full chunk, then one for what remains, below the offset the loop left.
\<close>

definition planned_requests :: "string \<Rightarrow> string option \<Rightarrow> int \<Rightarrow> int \<Rightarrow> int \<Rightarrow> history_request list" where
  "planned_requests p jf t cs d =
     map (chunk_request p jf t cs) (py_range (d div cs)) @
     (if 0 < d mod cs
      then [request_of p jf ((if d div cs \<le> 0 then t else t - cs * (d div cs)) - d mod cs) (d mod cs)]
      else [])"

subsection \<open>Remotes that always answer\<close>

text \<open>
  A remote whose history answers can always be read: no transport error, a \<open>total\<close>
  that is an integer, an \<open>execution\<close> in every event. And a remote whose delete
  answers can always be read, whatever they report in \<open>allsuccessful\<close>.
\<close>

definition reads_ok :: "('s, 'i) remote \<Rightarrow> bool" where
  "reads_ok client =
     (\<forall>s rq. \<exists>doc s' t ids. history_GET client s rq = (Inr doc, s')
        \<and> total_attr doc = Some t \<and> events doc = map Some ids)"

definition deletes_ok :: "('s, 'i) remote \<Rightarrow> bool" where
  "deletes_ok client =
     (\<forall>s ids. \<exists>fs s' k ok. delete_POST client s ids = (Inr fs, s')
        \<and> successful_count fs = Some k \<and> allsuccessful fs = Some ok)"

subsection \<open>Replaying a trace against the remote\<close>

text \<open>
  The trace holds every request in the order it was sent, so what the remote answered
  can be read off it again: starting from a state of the remote, each GET and each POST
  of the trace is put to the remote in turn. \<open>served\<close> is the state of the remote
  after one event and \<open>state_after\<close> after a list of them. \<open>fetched\<close>
  lists, for each history request whose answer can be read, the request and the ids of
  the answer. \<open>confirmed\<close> lists the successful count of each delete answer that has
  one, and \<open>reported\<close> the messages of each delete answer that says
  \<open>allsuccessful\<close> is false. \<open>error_logs\<close> are the message sets of the
  error lines of a trace, \<open>wire\<close> its requests, GET and POST, in order, and
  \<open>interleave\<close> alternates two lists, the first one leading.
\<close>

fun served :: "('s, 'i) remote \<Rightarrow> 's \<Rightarrow> 'i event \<Rightarrow> 's" where
  "served client s (EvGet rq) = snd (history_GET client s rq)"
| "served client s (EvPost ids) = snd (delete_POST client s ids)"
| "served client s e = s"

definition state_after :: "('s, 'i) remote \<Rightarrow> 's \<Rightarrow> 'i event list \<Rightarrow> 's" where
  "state_after client s evs = foldl (served client) s evs"

fun fetched :: "('s, 'i) remote \<Rightarrow> 's \<Rightarrow> 'i event list \<Rightarrow> (history_request \<times> 'i list) list" where
  "fetched client s [] = []"
| "fetched client s (EvGet rq # es) =
     (case fst (history_GET client s rq) of
        Inl e \<Rightarrow> []
      | Inr doc \<Rightarrow> (case those (events doc) of None \<Rightarrow> [] | Some ids \<Rightarrow> [(rq, ids)]))
     @ fetched client (snd (history_GET client s rq)) es"
| "fetched client s (e # es) = fetched client (served client s e) es"

fun confirmed :: "('s, 'i) remote \<Rightarrow> 's \<Rightarrow> 'i event list \<Rightarrow> int list" where
  "confirmed client s [] = []"
| "confirmed client s (EvPost ids # es) =
     (case fst (delete_POST client s ids) of
        Inl e \<Rightarrow> []
      | Inr fs \<Rightarrow> (case successful_count fs of None \<Rightarrow> [] | Some k \<Rightarrow> [k]))
     @ confirmed client (snd (delete_POST client s ids)) es"
| "confirmed client s (e # es) = confirmed client (served client s e) es"

fun reported :: "('s, 'i) remote \<Rightarrow> 's \<Rightarrow> 'i event list \<Rightarrow> string option set list" where
  "reported client s [] = []"
| "reported client s (EvPost ids # es) =
     (case fst (delete_POST client s ids) of
        Inl e \<Rightarrow> []
      | Inr fs \<Rightarrow>
          (if successful_count fs \<noteq> None \<and> allsuccessful fs = Some False
           then [set (messages fs)] else []))
     @ reported client (snd (delete_POST client s ids)) es"
| "reported client s (e # es) = reported client (served client s e) es"

fun error_logs :: "'i event list \<Rightarrow> string option set list" where
  "error_logs [] = []"
| "error_logs (EvError m # es) = m # error_logs es"
| "error_logs (e # es) = error_logs es"

fun wire :: "'i event list \<Rightarrow> (history_request + 'i list) list" where
  "wire [] = []"
| "wire (EvGet rq # es) = Inl rq # wire es"
| "wire (EvPost ids # es) = Inr ids # wire es"
| "wire (e # es) = wire es"

fun interleave :: "'a list \<Rightarrow> 'b list \<Rightarrow> ('a + 'b) list" where
  "interleave (x # xs) (y # ys) = Inl x # Inr y # interleave xs ys"
| "interleave xs [] = map Inl xs"
| "interleave [] ys = map Inr ys"

section \<open>What each step adds to the trace\<close>

lemma get_requests_append [simp]: "get_requests (a @ b) = get_requests a @ get_requests b"
  by (induction a rule: get_requests.induct) auto
lemma post_batches_append [simp]: "post_batches (a @ b) = post_batches a @ post_batches b"
  by (induction a rule: post_batches.induct) auto
lemma purge_batches_append [simp]: "purge_batches (a @ b) = purge_batches a @ purge_batches b"
  by (induction a rule: purge_batches.induct) auto

lemma search_history_trace:
  "search_history c p jf off hm w = (r, w') \<Longrightarrow> trace w' = trace w @ [EvGet (request_of p jf off hm)]"
  by (auto simp: search_history_def Let_def split: prod.splits)

lemma get_execution_ids_trace:
  "get_execution_ids c p jf off hm w = (r, w') \<Longrightarrow> trace w' = trace w @ [EvGet (request_of p jf off hm)]"
  by (auto simp: get_execution_ids_def split: prod.splits sum.splits option.splits dest: search_history_trace)

lemma get_history_total_trace:
  "get_history_total c p jf w = (r, w') \<Longrightarrow> trace w' = trace w @ [EvGet (request_of p jf 0 0)]"
  by (auto simp: get_history_total_def split: prod.splits sum.splits option.splits dest: search_history_trace)

lemma delete_executions_trace:
  "delete_executions c ids dry w = (r, w') \<Longrightarrow>
     \<exists>dl. trace w' = trace w @ dl \<and> get_requests dl = [] \<and> purge_batches dl = [ids]
        \<and> post_batches dl = (if dry then [] else [ids]) \<and> (dry \<longrightarrow> r = Inr 0)"
  by (auto simp: delete_executions_def emit_def Let_def split: prod.splits sum.splits option.splits if_splits)

lemma purge_chunks_Cons_cases:
  assumes "purge_chunks c p jf t cs dry (i # rest) (off, del) w = (r, w')"
  obtains (fetch_failed) e where "get_execution_ids c p jf (t - cs * (i + 1)) cs w = (Inl e, w')" "r = Inl e"
  | (delete_failed) ids w1 e where "get_execution_ids c p jf (t - cs * (i + 1)) cs w = (Inr ids, w1)"
      "delete_executions c (slice_from ids (- cs)) dry w1 = (Inl e, w')" "r = Inl e"
  | (continue) ids w1 n w2 where "get_execution_ids c p jf (t - cs * (i + 1)) cs w = (Inr ids, w1)"
      "delete_executions c (slice_from ids (- cs)) dry w1 = (Inr n, w2)"
      "purge_chunks c p jf t cs dry rest (t - cs * (i + 1), del + n) (emit EvSleep w2) = (r, w')"
  using assms by (auto simp: Let_def split: prod.splits sum.splits)


lemma slice_from_last:
  "1 \<le> cs \<Longrightarrow> slice_from ids (- cs) = drop (length ids - nat cs) ids"
  by (auto simp: slice_from_def Let_def max_def nat_diff_distrib' intro: arg_cong2[where f=drop])

lemma slice_from_length: "1 \<le> cs \<Longrightarrow> int (length (slice_from ids (- cs))) \<le> cs"
  by (simp add: slice_from_last)

lemma slice_from_subset: "set (slice_from ids k) \<subseteq> set ids"
  by (simp add: slice_from_def Let_def set_drop_subset)

lemma purge_chunks_requests:
  "purge_chunks c p jf t cs dry js (off, del) w = (r, w') \<Longrightarrow>
   \<exists>evs. trace w' = trace w @ evs
      \<and> prefix (get_requests evs) (map (chunk_request p jf t cs) js)
      \<and> (\<forall>off' del'. r = Inr (off', del') \<longrightarrow>
            get_requests evs = map (chunk_request p jf t cs) js
          \<and> off' = (if js = [] then off else t - cs * (last js + 1)))"
proof (induction js arbitrary: off del w)
  case Nil
  then show ?case by auto
next
  case (Cons i rest)
  from Cons.prems show ?case
  proof (cases rule: purge_chunks_Cons_cases)
    case (fetch_failed e)
    from get_execution_ids_trace[OF fetch_failed(1)] fetch_failed(2)
    show ?thesis by (auto simp: chunk_request_def)
  next
    case (delete_failed ids w1 e)
    from get_execution_ids_trace[OF delete_failed(1)] delete_executions_trace[OF delete_failed(2)]
      delete_failed(3)
    show ?thesis by (auto simp: chunk_request_def)
  next
    case (continue ids w1 n w2)
    from Cons.IH[OF continue(3)] obtain evs where
      evs: "trace w' = trace (emit EvSleep w2) @ evs"
        "prefix (get_requests evs) (map (chunk_request p jf t cs) rest)"
        "\<forall>off' del'. r = Inr (off', del') \<longrightarrow>
            get_requests evs = map (chunk_request p jf t cs) rest
          \<and> off' = (if rest = [] then t - cs * (i + 1) else t - cs * (last rest + 1))"
      by blast
    from delete_executions_trace[OF continue(2)] obtain dl where
      dl: "trace w2 = trace w1 @ dl" "get_requests dl = []" by blast
    have w1: "trace w1 = trace w @ [EvGet (chunk_request p jf t cs i)]"
      using get_execution_ids_trace[OF continue(1)] by (simp add: chunk_request_def)
    let ?all = "EvGet (chunk_request p jf t cs i) # dl @ EvSleep # evs"
    have "trace w' = trace w @ ?all"
      using evs(1) dl(1) w1 by (simp add: emit_def)
    moreover have "get_requests ?all = chunk_request p jf t cs i # get_requests evs"
      using dl(2) by simp
    ultimately show ?thesis using evs(2,3) by (intro exI[of _ ?all]) auto
  qed
qed

lemma purge_chunks_batches:
  "purge_chunks c p jf t cs dry js (off, del) w = (r, w') \<Longrightarrow>
   \<exists>evs. trace w' = trace w @ evs
      \<and> post_batches evs = (if dry then [] else purge_batches evs)
      \<and> (1 \<le> cs \<longrightarrow> (\<forall>b \<in> set (purge_batches evs). int (length b) \<le> cs))
      \<and> (\<forall>off' del'. r = Inr (off', del') \<longrightarrow>
            length (purge_batches evs) = length js \<and> (dry \<longrightarrow> del' = del))"
proof (induction js arbitrary: off del w)
  case Nil
  then show ?case by auto
next
  case (Cons i rest)
  from Cons.prems show ?case
  proof (cases rule: purge_chunks_Cons_cases)
    case (fetch_failed e)
    from get_execution_ids_trace[OF fetch_failed(1)] fetch_failed(2)
    show ?thesis by auto
  next
    case (delete_failed ids w1 e)
    from delete_executions_trace[OF delete_failed(2)] obtain dl where
      dl: "trace w' = trace w1 @ dl" "purge_batches dl = [slice_from ids (- cs)]"
        "post_batches dl = (if dry then [] else [slice_from ids (- cs)])" by blast
    let ?all = "EvGet (chunk_request p jf t cs i) # dl"
    have "trace w' = trace w @ ?all"
      using get_execution_ids_trace[OF delete_failed(1)] dl(1) by (simp add: chunk_request_def)
    then show ?thesis using dl(2,3) delete_failed(3) slice_from_length[of cs ids]
      by (intro exI[of _ ?all]) auto
  next
    case (continue ids w1 n w2)
    from Cons.IH[OF continue(3)] obtain evs where
      evs: "trace w' = trace (emit EvSleep w2) @ evs"
        "post_batches evs = (if dry then [] else purge_batches evs)"
        "1 \<le> cs \<longrightarrow> (\<forall>b \<in> set (purge_batches evs). int (length b) \<le> cs)"
        "\<forall>off' del'. r = Inr (off', del') \<longrightarrow>
            length (purge_batches evs) = length rest \<and> (dry \<longrightarrow> del' = del + n)"
      by blast
    from delete_executions_trace[OF continue(2)] obtain dl where
      dl: "trace w2 = trace w1 @ dl" "purge_batches dl = [slice_from ids (- cs)]"
        "post_batches dl = (if dry then [] else [slice_from ids (- cs)])" "dry \<longrightarrow> n = 0" by auto
    let ?all = "EvGet (chunk_request p jf t cs i) # dl @ EvSleep # evs"
    have "trace w' = trace w @ ?all"
      using get_execution_ids_trace[OF continue(1)] evs(1) dl(1) by (simp add: emit_def chunk_request_def)
    then show ?thesis using dl(2,3,4) evs(2,3,4) slice_from_length[of cs ids]
      by (intro exI[of _ ?all]) auto
  qed
qed

section \<open>What a whole purge adds to the trace\<close>

lemma those_map_Some [simp]: "those (map Some ids) = Some ids"
  by (induction ids) auto

lemma those_SomeD: "those xs = Some ids \<Longrightarrow> xs = map Some ids"
  by (induction xs arbitrary: ids) (auto split: option.splits)

lemma purge_history_cases:
  assumes "purge_history c p jf keep cs maxd dry w = (r, w')"
    and "get_history_total c p jf w = (Inr t, w1)"
  obtains (zero_div) "cs = 0" "r = Inl ZeroDivisionError"
      "w' = emit (EvInfoPlan (deletions_of t keep maxd) t) w1"
  | (chunk_failed) e where "cs \<noteq> 0" "r = Inl e"
      "purge_chunks c p jf t cs dry (py_range (deletions_of t keep maxd div cs)) (t, 0)
         (emit (EvInfoPlan (deletions_of t keep maxd) t) w1) = (Inl e, w')"
  | (no_remains) off del where "cs \<noteq> 0" "r = Inr del" "\<not> 0 < deletions_of t keep maxd mod cs"
      "purge_chunks c p jf t cs dry (py_range (deletions_of t keep maxd div cs)) (t, 0)
         (emit (EvInfoPlan (deletions_of t keep maxd) t) w1) = (Inr (off, del), w')"
  | (remains) off del w3 where "cs \<noteq> 0" "0 < deletions_of t keep maxd mod cs"
      "purge_chunks c p jf t cs dry (py_range (deletions_of t keep maxd div cs)) (t, 0)
         (emit (EvInfoPlan (deletions_of t keep maxd) t) w1) = (Inr (off, del), w3)"
      "(case get_execution_ids c p jf (off - deletions_of t keep maxd mod cs)
               (deletions_of t keep maxd mod cs) w3 of
          (Inl e, w4) \<Rightarrow> (Inl e, w4)
        | (Inr ids, w4) \<Rightarrow>
            (case delete_executions c ids dry w4 of
               (Inl e, w5) \<Rightarrow> (Inl e, w5)
             | (Inr n, w5) \<Rightarrow> (Inr (del + n), w5))) = (r, w')"
  using assms
  by (auto simp: purge_history_def py_divmod_def Let_def split: prod.splits sum.splits if_splits)

lemma remains_step_cases:
  assumes "(case get_execution_ids c p jf off hm w3 of
          (Inl e, w4) \<Rightarrow> (Inl e, w4)
        | (Inr ids, w4) \<Rightarrow>
            (case delete_executions c ids dry w4 of
               (Inl e, w5) \<Rightarrow> (Inl e, w5)
             | (Inr n, w5) \<Rightarrow> (Inr (del + n), w5))) = (r, w')"
  obtains (fetch_failed) e where "get_execution_ids c p jf off hm w3 = (Inl e, w')" "r = Inl e"
  | (delete_failed) ids w4 e where "get_execution_ids c p jf off hm w3 = (Inr ids, w4)"
      "delete_executions c ids dry w4 = (Inl e, w')" "r = Inl e"
  | (deleted) ids w4 n where "get_execution_ids c p jf off hm w3 = (Inr ids, w4)"
      "delete_executions c ids dry w4 = (Inr n, w')" "r = Inr (del + n)"
  using assms by (auto split: prod.splits sum.splits)

lemma remains_step_trace:
  assumes "(case get_execution_ids c p jf off hm w3 of
          (Inl e, w4) \<Rightarrow> (Inl e, w4)
        | (Inr ids, w4) \<Rightarrow>
            (case delete_executions c ids dry w4 of
               (Inl e, w5) \<Rightarrow> (Inl e, w5)
             | (Inr n, w5) \<Rightarrow> (Inr (del + n), w5))) = (r, w')"
  shows "\<exists>evs. trace w' = trace w3 @ evs \<and> get_requests evs = [request_of p jf off hm]
      \<and> post_batches evs = (if dry then [] else purge_batches evs)
      \<and> length (purge_batches evs) \<le> 1
      \<and> (\<forall>n. r = Inr n \<longrightarrow> length (purge_batches evs) = 1 \<and> (dry \<longrightarrow> n = del))"
  using assms
proof (cases rule: remains_step_cases)
  case (fetch_failed e)
  from get_execution_ids_trace[OF fetch_failed(1)] fetch_failed(2) show ?thesis by auto
next
  case (delete_failed ids w4 e)
  from get_execution_ids_trace[OF delete_failed(1)] delete_executions_trace[OF delete_failed(2)]
    delete_failed(3)
  show ?thesis by auto
next
  case (deleted ids w4 n)
  from get_execution_ids_trace[OF deleted(1)] delete_executions_trace[OF deleted(2)] deleted(3)
  show ?thesis by auto
qed


lemma py_range_empty: "py_range q = [] \<longleftrightarrow> q \<le> 0"
  by (simp add: py_range_def)

lemma last_py_range: "0 < q \<Longrightarrow> last (py_range q) = q - 1"
  by (simp add: py_range_def last_map last_upt)

lemma offset_after_loop:
  "(if py_range q = [] then t else t - cs * (last (py_range q) + 1))
     = (if q \<le> 0 then t else t - cs * q)"
  by (simp add: py_range_empty last_py_range)

lemma purge_history_requests:
  assumes run: "purge_history c p jf keep cs maxd dry w = (r, w')"
    and total: "get_history_total c p jf w = (Inr t, w1)"
  shows "\<exists>evs. trace w' = trace w1 @ EvInfoPlan (deletions_of t keep maxd) t # evs
      \<and> prefix (get_requests evs) (planned_requests p jf t cs (deletions_of t keep maxd))
      \<and> (\<forall>n. r = Inr n \<longrightarrow>
            get_requests evs = planned_requests p jf t cs (deletions_of t keep maxd))"
  using run total
proof (cases rule: purge_history_cases)
  case zero_div
  then show ?thesis by (simp add: emit_def)
next
  case (chunk_failed e)
  from purge_chunks_requests[OF chunk_failed(3)] chunk_failed(2)
  show ?thesis by (auto simp: emit_def planned_requests_def)
next
  case (no_remains off del)
  from purge_chunks_requests[OF no_remains(4)] no_remains(2,3)
  show ?thesis by (auto simp: emit_def planned_requests_def)
next
  case (remains off del w3)
  let ?d = "deletions_of t keep maxd"
  from purge_chunks_requests[OF remains(3)] obtain evs where
    evs: "trace w3 = trace (emit (EvInfoPlan ?d t) w1) @ evs"
      "get_requests evs = map (chunk_request p jf t cs) (py_range (?d div cs))"
      "off = (if ?d div cs \<le> 0 then t else t - cs * (?d div cs))"
    by (auto simp: offset_after_loop)
  from remains_step_trace[OF remains(4)] obtain evs' where
    evs': "trace w' = trace w3 @ evs'" "get_requests evs' = [request_of p jf (off - ?d mod cs) (?d mod cs)]"
    by blast
  have "trace w' = trace w1 @ EvInfoPlan ?d t # (evs @ evs')"
    using evs(1) evs'(1) by (simp add: emit_def)
  moreover have "get_requests (evs @ evs') = planned_requests p jf t cs ?d"
    using evs(2,3) evs'(2) remains(2) by (simp add: planned_requests_def)
  ultimately show ?thesis by (intro exI[of _ "evs @ evs'"]) simp
qed

lemma purge_history_batches:
  assumes run: "purge_history c p jf keep cs maxd dry w = (r, w')"
    and total: "get_history_total c p jf w = (Inr t, w1)"
  shows "\<exists>evs. trace w' = trace w1 @ EvInfoPlan (deletions_of t keep maxd) t # evs
      \<and> post_batches evs = (if dry then [] else purge_batches evs)
      \<and> (\<forall>n. r = Inr n \<longrightarrow>
            length (purge_batches evs) = nat (deletions_of t keep maxd div cs)
               + (if 0 < deletions_of t keep maxd mod cs then 1 else 0)
          \<and> (dry \<longrightarrow> n = 0))"
  using run total
proof (cases rule: purge_history_cases)
  case zero_div
  then show ?thesis by (simp add: emit_def)
next
  case (chunk_failed e)
  from purge_chunks_batches[OF chunk_failed(3)] chunk_failed(2)
  show ?thesis by (auto simp: emit_def)
next
  case (no_remains off del)
  from purge_chunks_batches[OF no_remains(4)] no_remains(2,3)
  show ?thesis by (auto simp: emit_def py_range_def)
next
  case (remains off del w3)
  let ?d = "deletions_of t keep maxd"
  from purge_chunks_batches[OF remains(3)] obtain evs where
    evs: "trace w3 = trace (emit (EvInfoPlan ?d t) w1) @ evs"
      "post_batches evs = (if dry then [] else purge_batches evs)"
      "length (purge_batches evs) = nat (?d div cs)" "dry \<longrightarrow> del = 0"
    by (auto simp: py_range_def)
  from remains_step_trace[OF remains(4)] obtain evs' where
    evs': "trace w' = trace w3 @ evs'"
      "post_batches evs' = (if dry then [] else purge_batches evs')"
      "\<forall>n. r = Inr n \<longrightarrow> length (purge_batches evs') = 1 \<and> (dry \<longrightarrow> n = del)"
    by blast
  have "trace w' = trace w1 @ EvInfoPlan ?d t # (evs @ evs')"
    using evs(1) evs'(1) by (simp add: emit_def)
  then show ?thesis using evs(2,3,4) evs'(2,3) remains(2)
    by (intro exI[of _ "evs @ evs'"]) auto
qed

section \<open>The offsets of the planned requests\<close>

lemma take_prefix_append:
  assumes "prefix xs (ys @ zs)"
  shows "prefix (take (length ys) xs) ys"
  by (metis append_eq_conv_conj assms prefix_def prefix_length_le prefix_same_cases take_all_iff)

lemma chunk_offsets:
  "map rq_offset (map (chunk_request p jf t cs) (py_range q)) = map (\<lambda>i. t - cs * (int i + 1)) [0..<nat q]"
  by (simp add: chunk_request_def request_of_def py_range_def comp_def)

lemma chunk_offsets_descend:
  "1 \<le> cs \<Longrightarrow> sorted_wrt (>) (map (\<lambda>i. t - cs * (int i + 1)) [0..<n])"
  by (simp add: sorted_wrt_map sorted_wrt_iff_nth_less)

lemma sorted_wrt_prefix: "prefix xs ys \<Longrightarrow> sorted_wrt P ys \<Longrightarrow> sorted_wrt P xs"
  by (auto simp: prefix_def sorted_wrt_append)

lemma chunk_offset_bound:
  assumes "0 \<le> d" and "1 \<le> cs" and "i \<in> set (py_range (d div cs))"
  shows "t - d \<le> t - cs * (i + 1)"
proof -
  from assms(3) have "i + 1 \<le> d div cs" by (auto simp: py_range_def)
  then have "cs * (i + 1) \<le> cs * (d div cs)" using assms(2) by (simp add: mult_left_mono)
  moreover have "cs * (d div cs) + d mod cs = d" by (rule mult_div_mod_eq)
  moreover have "0 \<le> d mod cs" using assms(2) by simp
  ultimately show ?thesis by linarith
qed

lemma remains_offset:
  fixes d cs t :: int
  assumes "0 \<le> d" and "1 \<le> cs"
  shows "(if d div cs \<le> 0 then t else t - cs * (d div cs)) - d mod cs = t - d"
proof -
  have dm: "cs * (d div cs) + d mod cs = d" by (rule mult_div_mod_eq)
  show ?thesis
  proof (cases "d div cs \<le> 0")
    case True
    moreover have "0 \<le> d div cs" using assms by (simp add: pos_imp_zdiv_nonneg_iff)
    ultimately have "d div cs = 0" by simp
    with dm have "d mod cs = d" by simp
    with True show ?thesis by simp
  next
    case False
    have "t - cs * (d div cs) - d mod cs = t - d" using dm by linarith
    with False show ?thesis by simp
  qed
qed

lemma planned_offsets:
  assumes "0 \<le> d" and "1 \<le> cs" and "rq \<in> set (planned_requests p jf t cs d)"
  shows "t - d \<le> rq_offset rq"
  using assms(3) chunk_offset_bound[OF assms(1,2)] remains_offset[OF assms(1,2), of t]
  by (auto simp: planned_requests_def chunk_request_def request_of_def split: if_splits)

section \<open>The number of batches\<close>


section \<open>The answers of the remote along a run\<close>

text \<open>
  What a step adds to the trace is what the replay of the trace needs: the state of the
  remote in the world is the state after the requests of the trace, each batch is what
  was fetched just before, and the count that is returned is the sum of the counts the
  remote confirmed.
\<close>

lemma state_after_Nil [simp]: "state_after c s [] = s"
  by (simp add: state_after_def)

lemma state_after_Cons [simp]: "state_after c s (e # es) = state_after c (served c s e) es"
  by (simp add: state_after_def)

lemma state_after_append [simp]:
  "state_after c s (a @ b) = state_after c (state_after c s a) b"
  by (simp add: state_after_def)

lemma fetched_append [simp]:
  "fetched c s (a @ b) = fetched c s a @ fetched c (state_after c s a) b"
  by (induction c s a rule: fetched.induct) simp_all

lemma confirmed_append [simp]:
  "confirmed c s (a @ b) = confirmed c s a @ confirmed c (state_after c s a) b"
  by (induction c s a rule: confirmed.induct) simp_all

lemma reported_append [simp]:
  "reported c s (a @ b) = reported c s a @ reported c (state_after c s a) b"
  by (induction c s a rule: reported.induct) simp_all

lemma error_logs_append [simp]: "error_logs (a @ b) = error_logs a @ error_logs b"
  by (induction a rule: error_logs.induct) simp_all

lemma wire_append [simp]: "wire (a @ b) = wire a @ wire b"
  by (induction a rule: wire.induct) simp_all

lemma interleave_Nil2 [simp]: "interleave xs [] = map Inl xs"
  by (cases xs) simp_all

lemma interleave_append:
  "length xs = length ys \<Longrightarrow> interleave (xs @ xs') (ys @ ys') = interleave xs ys @ interleave xs' ys'"
  by (induction xs ys rule: list_induct2) simp_all

lemma fetched_requests: "set (map fst (fetched c s evs)) \<subseteq> set (get_requests evs)"
  by (induction c s evs rule: fetched.induct) (auto split: sum.splits option.splits)


lemma get_execution_ids_InrE:
  assumes "get_execution_ids c p jf off hm w = (Inr ids, w1)"
  obtains doc where "fst (history_GET c (server w) (request_of p jf off hm)) = Inr doc"
    "those (events doc) = Some ids"
    "snd (history_GET c (server w) (request_of p jf off hm)) = server w1"
    "trace w1 = trace w @ [EvGet (request_of p jf off hm)]"
  using assms
  by (auto simp: get_execution_ids_def search_history_def Let_def
      split: prod.splits sum.splits option.splits)

lemma get_execution_ids_Inl_replay:
  assumes "get_execution_ids c p jf off hm w = (Inl e, w1)"
  shows "fetched c (server w) [EvGet (request_of p jf off hm)] = []"
    and "snd (history_GET c (server w) (request_of p jf off hm)) = server w1"
    and "trace w1 = trace w @ [EvGet (request_of p jf off hm)]"
  using assms
  by (auto simp: get_execution_ids_def search_history_def Let_def
      split: prod.splits sum.splits option.splits)

lemma get_history_total_state:
  assumes "get_history_total c p jf w = (r, w1)"
  shows "server w1 = snd (history_GET c (server w) (request_of p jf 0 0))"
  using assms
  by (auto simp: get_history_total_def search_history_def Let_def
      split: prod.splits sum.splits option.splits)

lemma delete_executions_replay:
  assumes "delete_executions c ids dry w = (r, w')"
  shows "\<exists>dl. trace w' = trace w @ dl \<and> server w' = state_after c (server w) dl
     \<and> fetched c (server w) dl = [] \<and> get_requests dl = []
     \<and> purge_batches dl = [ids] \<and> post_batches dl = (if dry then [] else [ids])
     \<and> wire dl = (if dry then [] else [Inr ids])
     \<and> error_logs dl = reported c (server w) dl
     \<and> length (confirmed c (server w) dl) \<le> 1
     \<and> (\<forall>n. r = Inr n \<longrightarrow> confirmed c (server w) dl = (if dry then [] else [n])
                           \<and> (dry \<longrightarrow> n = 0))"
proof (cases dry)
  case True
  with assms show ?thesis
    by (intro exI[of _ "[EvInfoPurge (length ids) ids]"])
       (auto simp: delete_executions_def emit_def Let_def)
next
  case False
  obtain res s where post: "delete_POST c (server w) ids = (res, s)"
    by (cases "delete_POST c (server w) ids")
  let ?errs = "case res of Inl e \<Rightarrow> []
     | Inr fs \<Rightarrow> (if successful_count fs \<noteq> None \<and> allsuccessful fs = Some False
                  then [EvError (set (messages fs))] else [])"
  let ?dl = "EvInfoPurge (length ids) ids # EvPost ids # ?errs"
  from assms False post have "trace w' = trace w @ ?dl" "server w' = s"
    by (auto simp: delete_executions_def emit_def Let_def split: sum.splits option.splits if_splits)
  moreover from assms False post
  have "\<forall>n. r = Inr n \<longrightarrow> (\<exists>fs. res = Inr fs \<and> successful_count fs = Some n)"
    by (auto simp: delete_executions_def emit_def Let_def split: sum.splits option.splits if_splits)
  ultimately show ?thesis using False post
    by (intro exI[of _ ?dl]) (auto split: sum.splits option.splits)
qed

lemma purge_chunks_replay:
  "purge_chunks c p jf t cs dry js (off, del) w = (r, w') \<Longrightarrow>
   \<exists>evs. trace w' = trace w @ evs \<and> server w' = state_after c (server w) evs
      \<and> purge_batches evs = map (\<lambda>(rq, f). slice_from f (- cs)) (fetched c (server w) evs)
      \<and> post_batches evs = (if dry then [] else purge_batches evs)
      \<and> wire evs = interleave (get_requests evs) (post_batches evs)
      \<and> error_logs evs = reported c (server w) evs
      \<and> length (fetched c (server w) evs) \<le> length js
      \<and> (\<forall>off' del'. r = Inr (off', del') \<longrightarrow>
            del' = del + sum_list (confirmed c (server w) evs)
          \<and> length (fetched c (server w) evs) = length js
          \<and> length (get_requests evs) = length js
          \<and> length (purge_batches evs) = length js
          \<and> length (confirmed c (server w) evs) = length (post_batches evs))"
proof (induction js arbitrary: off del w)
  case Nil
  then show ?case by auto
next
  case (Cons i rest)
  let ?rq = "request_of p jf (t - cs * (i + 1)) cs"
  from Cons.prems show ?case
  proof (cases rule: purge_chunks_Cons_cases)
    case (fetch_failed e)
    from get_execution_ids_Inl_replay[OF fetch_failed(1)] fetch_failed(2)
    show ?thesis by (intro exI[of _ "[EvGet ?rq]"]) simp
  next
    case (delete_failed ids w1 e)
    from delete_failed(1) obtain doc where
      g: "fst (history_GET c (server w) ?rq) = Inr doc" "those (events doc) = Some ids"
        "snd (history_GET c (server w) ?rq) = server w1" "trace w1 = trace w @ [EvGet ?rq]"
      by (rule get_execution_ids_InrE)
    from delete_executions_replay[OF delete_failed(2)] obtain dl where
      dl: "trace w' = trace w1 @ dl" "server w' = state_after c (server w1) dl"
        "fetched c (server w1) dl = []" "get_requests dl = []"
        "purge_batches dl = [slice_from ids (- cs)]"
        "post_batches dl = (if dry then [] else [slice_from ids (- cs)])"
        "wire dl = (if dry then [] else [Inr (slice_from ids (- cs))])"
        "error_logs dl = reported c (server w1) dl"
      by blast
    from g dl delete_failed(3) show ?thesis
      by (intro exI[of _ "EvGet ?rq # dl"]) simp
  next
    case (continue ids w1 n w2)
    from continue(1) obtain doc where
      g: "fst (history_GET c (server w) ?rq) = Inr doc" "those (events doc) = Some ids"
        "snd (history_GET c (server w) ?rq) = server w1" "trace w1 = trace w @ [EvGet ?rq]"
      by (rule get_execution_ids_InrE)
    from delete_executions_replay[OF continue(2)] obtain dl where
      dl: "trace w2 = trace w1 @ dl" "server w2 = state_after c (server w1) dl"
        "fetched c (server w1) dl = []" "get_requests dl = []"
        "purge_batches dl = [slice_from ids (- cs)]"
        "post_batches dl = (if dry then [] else [slice_from ids (- cs)])"
        "wire dl = (if dry then [] else [Inr (slice_from ids (- cs))])"
        "error_logs dl = reported c (server w1) dl"
        "confirmed c (server w1) dl = (if dry then [] else [n])"
      by blast
    let ?w = "emit EvSleep w2"
    from Cons.IH[OF continue(3)] obtain evs where
      evs: "trace w' = trace ?w @ evs" "server w' = state_after c (server ?w) evs"
        "purge_batches evs = map (\<lambda>(rq, f). slice_from f (- cs)) (fetched c (server ?w) evs)"
        "wire evs = interleave (get_requests evs) (post_batches evs)"
        "error_logs evs = reported c (server ?w) evs"
        "length (fetched c (server ?w) evs) \<le> length rest"
        "post_batches evs = (if dry then [] else purge_batches evs)"
        "\<forall>off' del'. r = Inr (off', del') \<longrightarrow>
            del' = del + n + sum_list (confirmed c (server ?w) evs)
          \<and> length (fetched c (server ?w) evs) = length rest
          \<and> length (get_requests evs) = length rest
          \<and> length (purge_batches evs) = length rest
          \<and> length (confirmed c (server ?w) evs) = length (post_batches evs)"
      by (elim exE conjE) (rule that)
    have sw: "server ?w = server w2" by (simp add: emit_def)
    let ?all = "EvGet ?rq # dl @ EvSleep # evs"
    have tr: "trace w' = trace w @ ?all"
      using g(4) dl(1) evs(1) by (simp add: emit_def)
    have st: "state_after c (server w) ?all = server w'"
      using g(3) dl(2) evs(2) sw by simp
    have f: "fetched c (server w) ?all = (?rq, ids) # fetched c (server ?w) evs"
      using g(1,2,3) dl(2,3) sw by simp
    have cf: "confirmed c (server w) ?all = (if dry then [] else [n]) @ confirmed c (server ?w) evs"
      using g(3) dl(2,9) sw by simp
    have rp: "reported c (server w) ?all = reported c (server w1) dl @ reported c (server ?w) evs"
      using g(3) dl(2) sw by simp
    have dryn: "dry \<longrightarrow> n = 0"
      using delete_executions_replay[OF continue(2)] by blast
    from tr st f cf rp dl(4,5,6,7,8) evs(3,4,5,6,7,8) dryn show ?thesis
      by (intro exI[of _ ?all]) auto
  qed
qed


lemma remains_step_replay:
  assumes "(case get_execution_ids c p jf off hm w3 of
          (Inl e, w4) \<Rightarrow> (Inl e, w4)
        | (Inr ids, w4) \<Rightarrow>
            (case delete_executions c ids dry w4 of
               (Inl e, w5) \<Rightarrow> (Inl e, w5)
             | (Inr n, w5) \<Rightarrow> (Inr (del + n), w5))) = (r, w')"
  shows "\<exists>evs. trace w' = trace w3 @ evs \<and> server w' = state_after c (server w3) evs
      \<and> purge_batches evs = map snd (fetched c (server w3) evs)
      \<and> post_batches evs = (if dry then [] else purge_batches evs)
      \<and> wire evs = interleave (get_requests evs) (post_batches evs)
      \<and> error_logs evs = reported c (server w3) evs
      \<and> (\<forall>n. r = Inr n \<longrightarrow> n = del + sum_list (confirmed c (server w3) evs)
                          \<and> length (fetched c (server w3) evs) = 1
                          \<and> length (confirmed c (server w3) evs) = length (post_batches evs))"
  using assms
proof (cases rule: remains_step_cases)
  case (fetch_failed e)
  from get_execution_ids_Inl_replay[OF fetch_failed(1)] fetch_failed(2)
  show ?thesis by (intro exI[of _ "[EvGet (request_of p jf off hm)]"]) simp
next
  case (delete_failed ids w4 e)
  let ?rq = "request_of p jf off hm"
  from delete_failed(1) obtain doc where
    g: "fst (history_GET c (server w3) ?rq) = Inr doc" "those (events doc) = Some ids"
      "snd (history_GET c (server w3) ?rq) = server w4" "trace w4 = trace w3 @ [EvGet ?rq]"
    by (rule get_execution_ids_InrE)
  from delete_executions_replay[OF delete_failed(2)] obtain dl where
    dl: "trace w' = trace w4 @ dl" "server w' = state_after c (server w4) dl"
      "fetched c (server w4) dl = []" "get_requests dl = []"
      "purge_batches dl = [ids]" "post_batches dl = (if dry then [] else [ids])"
      "wire dl = (if dry then [] else [Inr ids])"
      "error_logs dl = reported c (server w4) dl"
    by blast
  from g dl delete_failed(3) show ?thesis
    by (intro exI[of _ "EvGet ?rq # dl"]) simp
next
  case (deleted ids w4 n)
  let ?rq = "request_of p jf off hm"
  from deleted(1) obtain doc where
    g: "fst (history_GET c (server w3) ?rq) = Inr doc" "those (events doc) = Some ids"
      "snd (history_GET c (server w3) ?rq) = server w4" "trace w4 = trace w3 @ [EvGet ?rq]"
    by (rule get_execution_ids_InrE)
  from delete_executions_replay[OF deleted(2)] obtain dl where
    dl: "trace w' = trace w4 @ dl" "server w' = state_after c (server w4) dl"
      "fetched c (server w4) dl = []" "get_requests dl = []"
      "purge_batches dl = [ids]" "post_batches dl = (if dry then [] else [ids])"
      "wire dl = (if dry then [] else [Inr ids])"
      "error_logs dl = reported c (server w4) dl"
      "confirmed c (server w4) dl = (if dry then [] else [n])" "dry \<longrightarrow> n = 0"
    by blast
  from g dl deleted(3) show ?thesis
    by (intro exI[of _ "EvGet ?rq # dl"]) auto
qed

lemma purge_history_replay:
  assumes run: "purge_history c p jf keep cs maxd dry w = (r, w')"
    and total: "get_history_total c p jf w = (Inr t, w1)"
  shows "\<exists>evs. trace w' = trace w1 @ EvInfoPlan (deletions_of t keep maxd) t # evs
      \<and> server w' = state_after c (server w1) evs
      \<and> purge_batches evs =
           map (\<lambda>(rq, f). slice_from f (- cs))
             (take (nat (deletions_of t keep maxd div cs)) (fetched c (server w1) evs))
           @ map snd (drop (nat (deletions_of t keep maxd div cs)) (fetched c (server w1) evs))
      \<and> post_batches evs = (if dry then [] else purge_batches evs)
      \<and> wire evs = interleave (get_requests evs) (post_batches evs)
      \<and> error_logs evs = reported c (server w1) evs
      \<and> (\<forall>n. r = Inr n \<longrightarrow> n = sum_list (confirmed c (server w1) evs)
            \<and> length (fetched c (server w1) evs) = nat (deletions_of t keep maxd div cs)
                 + (if 0 < deletions_of t keep maxd mod cs then 1 else 0)
            \<and> length (confirmed c (server w1) evs) = length (post_batches evs))"
proof -
  let ?d = "deletions_of t keep maxd"
  let ?q = "nat (?d div cs)"
  let ?w2 = "emit (EvInfoPlan ?d t) w1"
  have s2: "server ?w2 = server w1" by (simp add: emit_def)
  have len: "length (py_range (?d div cs)) = ?q" by (simp add: py_range_def)
  from run total show ?thesis
  proof (cases rule: purge_history_cases)
    case zero_div
    then show ?thesis by (intro exI[of _ "[]"]) (simp add: emit_def)
  next
    case (chunk_failed e)
    from purge_chunks_replay[OF chunk_failed(3)] chunk_failed(2) len s2 show ?thesis
      by (auto simp: emit_def)
  next
    case (no_remains off del)
    from purge_chunks_replay[OF no_remains(4)] no_remains(2,3) len s2 show ?thesis
      by (auto simp: emit_def)
  next
    case (remains off del w3)
    from purge_chunks_replay[OF remains(3)] len s2 obtain le where
      le: "trace w3 = trace ?w2 @ le" "server w3 = state_after c (server w1) le"
        "purge_batches le = map (\<lambda>(rq, f). slice_from f (- cs)) (fetched c (server w1) le)"
        "post_batches le = (if dry then [] else purge_batches le)"
        "wire le = interleave (get_requests le) (post_batches le)"
        "error_logs le = reported c (server w1) le"
        "del = sum_list (confirmed c (server w1) le)"
        "length (fetched c (server w1) le) = ?q"
        "length (get_requests le) = ?q" "length (purge_batches le) = ?q"
        "length (confirmed c (server w1) le) = length (post_batches le)"
      by auto
    from remains_step_replay[OF remains(4)] obtain re where
      re: "trace w' = trace w3 @ re" "server w' = state_after c (server w3) re"
        "purge_batches re = map snd (fetched c (server w3) re)"
        "post_batches re = (if dry then [] else purge_batches re)"
        "wire re = interleave (get_requests re) (post_batches re)"
        "error_logs re = reported c (server w3) re"
        "\<forall>n. r = Inr n \<longrightarrow> n = del + sum_list (confirmed c (server w3) re)
                          \<and> length (fetched c (server w3) re) = 1
                          \<and> length (confirmed c (server w3) re) = length (post_batches re)"
      by blast
    have tr: "trace w' = trace w1 @ EvInfoPlan ?d t # (le @ re)"
      using le(1) re(1) by (simp add: emit_def)
    have wr: "wire (le @ re) = interleave (get_requests (le @ re)) (post_batches (le @ re))"
    proof (cases dry)
      case True
      with le(4,5) re(4,5) show ?thesis by simp
    next
      case False
      with le(4,9,10) have "length (get_requests le) = length (post_batches le)" by simp
      from interleave_append[OF this] le(5) re(5) show ?thesis by simp
    qed
    from tr wr le(2,3,4,6,7,8,11) re(2,3,4,6,7) remains(2) show ?thesis
      by (intro exI[of _ "le @ re"]) auto
  qed
qed


lemma fetched_subseq: "subseq (map fst (fetched c s evs)) (get_requests evs)"
  by (induction c s evs rule: fetched.induct) (auto split: sum.splits option.splits)


lemma planned_length:
  "length (planned_requests p jf t cs d) = nat (d div cs) + (if 0 < d mod cs then 1 else 0)"
  by (simp add: planned_requests_def py_range_def)

lemma purge_history_answers:
  assumes run: "purge_history c p jf keep cs maxd dry w = (Inr n, w')"
    and total: "get_history_total c p jf w = (Inr t, w1)"
    and tr: "trace w' = trace w1 @ EvInfoPlan (deletions_of t keep maxd) t # evs"
  shows "map fst (fetched c (server w1) evs) = get_requests evs"
proof -
  from purge_history_requests[OF run total] tr
  have "get_requests evs = planned_requests p jf t cs (deletions_of t keep maxd)" by auto
  moreover from purge_history_replay[OF run total] tr
  have "length (fetched c (server w1) evs) = nat (deletions_of t keep maxd div cs)
                 + (if 0 < deletions_of t keep maxd mod cs then 1 else 0)" by auto
  ultimately have "length (map fst (fetched c (server w1) evs)) = length (get_requests evs)"
    by (simp add: planned_length)
  with fetched_subseq[of c "server w1" evs] show ?thesis
    by (rule subseq_same_length)
qed

lemma observe_plan [simp]:
  "fetched c s (EvInfoPlan d t # evs) = fetched c s evs"
  "confirmed c s (EvInfoPlan d t # evs) = confirmed c s evs"
  "reported c s (EvInfoPlan d t # evs) = reported c s evs"
  by simp_all

lemma drop_last_one: "length xs = Suc n \<Longrightarrow> drop n xs = [last xs]"
  by (metis append_butlast_last_id append_eq_conv_conj length_butlast length_0_conv
      diff_Suc_1 nat.distinct(1))

section \<open>Runs that cannot fail\<close>

text \<open>
  With a remote that always answers, nothing in the purge raises, whatever the answers
  report, except the division by a chunk size of zero.
\<close>

lemma get_execution_ids_ok:
  "reads_ok c \<Longrightarrow> \<exists>ids w1. get_execution_ids c p jf off hm w = (Inr ids, w1)"
proof -
  assume ok: "reads_ok c"
  obtain doc s' t ids where
    "history_GET c (server w) (request_of p jf off hm) = (Inr doc, s')" "events doc = map Some ids"
    using ok unfolding reads_ok_def by blast
  then show ?thesis
    by (simp add: get_execution_ids_def search_history_def Let_def)
qed

lemma get_history_total_ok:
  "reads_ok c \<Longrightarrow> \<exists>t w1. get_history_total c p jf w = (Inr t, w1)"
proof -
  assume ok: "reads_ok c"
  obtain doc s' t ids where
    "history_GET c (server w) (request_of p jf 0 0) = (Inr doc, s')" "total_attr doc = Some t"
    using ok unfolding reads_ok_def by blast
  then show ?thesis
    by (simp add: get_history_total_def search_history_def Let_def)
qed

lemma delete_executions_ok:
  "dry \<or> deletes_ok c \<Longrightarrow> \<exists>n w1. delete_executions c ids dry w = (Inr n, w1)"
proof (cases dry)
  case True
  then show ?thesis by (simp add: delete_executions_def Let_def)
next
  case False
  assume "dry \<or> deletes_ok c"
  with False have ok: "deletes_ok c" by simp
  obtain fs s' k b where
    "delete_POST c (server (emit (EvInfoPurge (length ids) ids) w)) ids = (Inr fs, s')"
    "successful_count fs = Some k" "allsuccessful fs = Some b"
    using ok unfolding deletes_ok_def by blast
  with False show ?thesis
    by (simp add: delete_executions_def Let_def)
qed

lemma purge_chunks_ok:
  "reads_ok c \<Longrightarrow> dry \<or> deletes_ok c \<Longrightarrow>
     \<exists>x w'. purge_chunks c p jf t cs dry js (off, del) w = (Inr x, w')"
proof (induction js arbitrary: off del w)
  case Nil
  then show ?case by simp
next
  case (Cons i rest)
  obtain ids w1 where f: "get_execution_ids c p jf (t - cs * (i + 1)) cs w = (Inr ids, w1)"
    using get_execution_ids_ok[OF Cons.prems(1)] by blast
  obtain n w2 where d: "delete_executions c (slice_from ids (- cs)) dry w1 = (Inr n, w2)"
    using delete_executions_ok[OF Cons.prems(2)] by blast
  from Cons.IH[OF Cons.prems] f d show ?case by (simp add: Let_def)
qed

lemma purge_history_ok:
  assumes "reads_ok c" and "dry \<or> deletes_ok c" and "cs \<noteq> 0"
  shows "\<exists>n w'. purge_history c p jf keep cs maxd dry w = (Inr n, w')"
proof -
  obtain t w1 where t: "get_history_total c p jf w = (Inr t, w1)"
    using get_history_total_ok[OF assms(1)] by blast
  let ?d = "deletions_of t keep maxd"
  let ?w2 = "emit (EvInfoPlan ?d t) w1"
  obtain off del w3 where l:
    "purge_chunks c p jf t cs dry (py_range (?d div cs)) (t, 0) ?w2 = (Inr (off, del), w3)"
    using purge_chunks_ok[OF assms(1,2)] by (metis surj_pair)
  obtain ids w4 where f:
    "get_execution_ids c p jf (off - ?d mod cs) (?d mod cs) w3 = (Inr ids, w4)"
    using get_execution_ids_ok[OF assms(1)] by blast
  obtain n w5 where d: "delete_executions c ids dry w4 = (Inr n, w5)"
    using delete_executions_ok[OF assms(2)] by blast
  from t l f d assms(3) show ?thesis
    by (simp add: purge_history_def py_divmod_def Let_def)
qed

lemma sample_reads_ok: "reads_ok (sample_remote k prot)"
  by (simp add: reads_ok_def sample_remote_def)

lemma sample_deletes_ok: "deletes_ok (sample_remote k prot)"
  by (simp add: deletes_ok_def sample_remote_def Let_def)

section \<open>Two runs against the sample remote\<close>

text \<open>
  A project with 100 executions, and one with 55; keep 20, chunks of 20, no cap that binds.
  The sample remote deletes what it is asked to.
\<close>

lemma run_100:
  "purge_history (sample_remote 0 []) ''p'' None 20 20 1000 False (start [0..99]) =
  (Inr 80, \<lparr>server = [0..19], trace =
     [EvGet (request_of ''p'' None 0 0), EvInfoPlan 80 100,
      EvGet (request_of ''p'' None 80 20), EvInfoPurge 20 [80..99], EvPost [80..99], EvSleep,
      EvGet (request_of ''p'' None 60 20), EvInfoPurge 20 [60..79], EvPost [60..79], EvSleep,
      EvGet (request_of ''p'' None 40 20), EvInfoPurge 20 [40..59], EvPost [40..59], EvSleep,
      EvGet (request_of ''p'' None 20 20), EvInfoPurge 20 [20..39], EvPost [20..39], EvSleep]\<rparr>)"
  by code_simp

lemma run_55:
  "purge_history (sample_remote 0 []) ''p'' None 20 20 1000 False (start [0..54]) =
  (Inr 35, \<lparr>server = [0..19], trace =
     [EvGet (request_of ''p'' None 0 0), EvInfoPlan 35 55,
      EvGet (request_of ''p'' None 35 20), EvInfoPurge 20 [35..54], EvPost [35..54], EvSleep,
      EvGet (request_of ''p'' None 20 15), EvInfoPurge 15 [20..34], EvPost [20..34]]\<rparr>)"
  by code_simp

text \<open>The count query of the two runs.\<close>

lemma total_100:
  "get_history_total (sample_remote 0 []) ''p'' None (start [0..99]) =
     (Inr 100, \<lparr>server = [0..99], trace = [EvGet (request_of ''p'' None 0 0)]\<rparr>)"
  by code_simp

lemma total_55:
  "get_history_total (sample_remote 0 []) ''p'' None (start [0..54]) =
     (Inr 55, \<lparr>server = [0..54], trace = [EvGet (request_of ''p'' None 0 0)]\<rparr>)"
  by code_simp

text \<open>What the remote answered to the history requests of the two runs.\<close>

lemma answers_100:
  "fetched (sample_remote 0 []) [0..99]
     [EvInfoPlan 80 100,
      EvGet (request_of ''p'' None 80 20), EvInfoPurge 20 [80..99], EvPost [80..99], EvSleep,
      EvGet (request_of ''p'' None 60 20), EvInfoPurge 20 [60..79], EvPost [60..79], EvSleep,
      EvGet (request_of ''p'' None 40 20), EvInfoPurge 20 [40..59], EvPost [40..59], EvSleep,
      EvGet (request_of ''p'' None 20 20), EvInfoPurge 20 [20..39], EvPost [20..39], EvSleep]
   = [(request_of ''p'' None 80 20, [80..99]), (request_of ''p'' None 60 20, [60..79]),
      (request_of ''p'' None 40 20, [40..59]), (request_of ''p'' None 20 20, [20..39])]"
  by code_simp

lemma answers_55:
  "fetched (sample_remote 0 []) [0..54]
     [EvInfoPlan 35 55,
      EvGet (request_of ''p'' None 35 20), EvInfoPurge 20 [35..54], EvPost [35..54], EvSleep,
      EvGet (request_of ''p'' None 20 15), EvInfoPurge 15 [20..34], EvPost [20..34]]
   = [(request_of ''p'' None 35 20, [35..54]), (request_of ''p'' None 20 15, [20..34])]"
  by code_simp

text \<open>
  The run with 100 executions when two of the oldest 20 are protected: the remote
  confirms 18 of the first batch and 20 of each of the others.
\<close>

lemma run_partial:
  "purge_history (sample_remote 0 [81, 85]) ''p'' None 20 20 1000 False (start [0..99]) =
     (Inr 78, \<lparr>server = [0..19] @ [81, 85], trace =
        [EvGet (request_of ''p'' None 0 0), EvInfoPlan 80 100,
         EvGet (request_of ''p'' None 80 20), EvInfoPurge 20 [80..99], EvPost [80..99],
         EvError {Some ''Unauthorized: Delete execution in project xxx''}, EvSleep,
         EvGet (request_of ''p'' None 60 20), EvInfoPurge 20 [60..79], EvPost [60..79], EvSleep,
         EvGet (request_of ''p'' None 40 20), EvInfoPurge 20 [40..59], EvPost [40..59], EvSleep,
         EvGet (request_of ''p'' None 20 20), EvInfoPurge 20 [20..39], EvPost [20..39], EvSleep]\<rparr>)"
  by code_simp

lemma confirmed_partial:
  "confirmed (sample_remote 0 [81, 85]) [0..99]
       [EvInfoPlan 80 100,
         EvGet (request_of ''p'' None 80 20), EvInfoPurge 20 [80..99], EvPost [80..99],
         EvError {Some ''Unauthorized: Delete execution in project xxx''}, EvSleep,
         EvGet (request_of ''p'' None 60 20), EvInfoPurge 20 [60..79], EvPost [60..79], EvSleep,
         EvGet (request_of ''p'' None 40 20), EvInfoPurge 20 [40..59], EvPost [40..59], EvSleep,
         EvGet (request_of ''p'' None 20 20), EvInfoPurge 20 [20..39], EvPost [20..39], EvSleep]
     = [18, 20, 20, 20]"
  by code_simp

text \<open>A small run: 5 executions, keep 2, chunks of 2.\<close>

lemma run_5:
  "purge_history (sample_remote 0 []) ''p'' None 2 2 10 False (start [0..4]) =
     (Inr 3, \<lparr>server = [0, 1], trace =
        [EvGet (request_of ''p'' None 0 0), EvInfoPlan 3 5,
         EvGet (request_of ''p'' None 3 2), EvInfoPurge 2 [3, 4], EvPost [3, 4], EvSleep,
         EvGet (request_of ''p'' None 2 1), EvInfoPurge 1 [2], EvPost [2]]\<rparr>)"
  by code_simp

lemma answers_5:
  "fetched (sample_remote 0 []) [0..4]
       [EvInfoPlan 3 5,
         EvGet (request_of ''p'' None 3 2), EvInfoPurge 2 [3, 4], EvPost [3, 4], EvSleep,
         EvGet (request_of ''p'' None 2 1), EvInfoPurge 1 [2], EvPost [2]]
     = [(request_of ''p'' None 3 2, [3, 4]), (request_of ''p'' None 2 1, [2])]"
  by code_simp

section \<open>The plan\<close>

text \<open>
  C1. When the count query answers \<open>t\<close> and \<open>t\<close>, the keep count and the cap
  are not negative, the number of deletions of line 55 is
  \<open>min maxd (max 0 (t - min t keep))\<close>, it is at most \<open>t\<close>, and it is the
  number that \<open>purge_history\<close> announces in its log right after the count query.
\<close>

theorem deletions_formula:
  assumes "0 \<le> t" and "0 \<le> keep" and "0 \<le> maxd"
    and total: "get_history_total c p jf w = (Inr t, w1)"
  shows "deletions_of t keep maxd = min maxd (max 0 (t - min t keep))
       \<and> deletions_of t keep maxd \<le> t
       \<and> (\<exists>evs. trace (snd (purge_history c p jf keep cs maxd dry w))
                 = trace w1 @ EvInfoPlan (min maxd (max 0 (t - min t keep))) t # evs)"
proof -
  have d: "deletions_of t keep maxd = min maxd (max 0 (t - min t keep))"
    using assms(1-3) by (simp add: deletions_of_def keep_clamped_def)
  have le: "deletions_of t keep maxd \<le> t"
    using assms(1-3) by (simp add: deletions_of_def keep_clamped_def)
  obtain r w' where run: "purge_history c p jf keep cs maxd dry w = (r, w')"
    by (cases "purge_history c p jf keep cs maxd dry w")
  from purge_history_requests[OF run total] obtain evs where
    "trace w' = trace w1 @ EvInfoPlan (deletions_of t keep maxd) t # evs" by blast
  with d le run show ?thesis by simp
qed

text \<open>The project with 55 executions, keep 20: 35 deletions are announced.\<close>

theorem deletions_formula_witness:
  "deletions_of 55 20 1000 = 35 \<and> deletions_of 55 20 1000 \<le> 55
   \<and> (\<exists>evs. trace (snd (purge_history (sample_remote 0 []) ''p'' None 20 20 1000 True (start [0..54])))
             = [EvGet (request_of ''p'' None 0 0)] @ EvInfoPlan 35 55 # evs)"
proof -
  have total: "get_history_total (sample_remote 0 []) ''p'' None (start [0..54])
      = (Inr 55, \<lparr>server = [0..54], trace = [EvGet (request_of ''p'' None 0 0)]\<rparr>)"
    by code_simp
  show ?thesis
    using deletions_formula [OF _ _ _ total, of 20 1000 20 True] by simp
qed

text \<open>
  C8, as stated, fails: the cap is any integer the command line gives, and with a
  negative cap the number of deletions is negative. A total of 10, keep 5, cap \<open>-1\<close>.
\<close>

theorem plan_invariant_counterexample:
  "deletions_of 10 5 (- 1) = - 1 \<and> \<not> 0 \<le> deletions_of 10 5 (- 1)"
  by (simp add: deletions_of_def keep_clamped_def)

text \<open>
  C8, amended. For all integers, the clamped keep count is at most the total, and the
  number of deletions is non-negative exactly when the cap is.
\<close>

theorem plan_invariant:
  "keep_clamped t keep \<le> t \<and> (0 \<le> deletions_of t keep maxd \<longleftrightarrow> 0 \<le> maxd)"
  by (auto simp: deletions_of_def keep_clamped_def)

text \<open>Keep counts above and below a total of 10, with a cap of 3.\<close>

theorem plan_invariant_witness:
  "keep_clamped 10 50 = 10 \<and> deletions_of 10 50 3 = 0 \<and> deletions_of 10 5 3 = 3
   \<and> keep_clamped 10 50 \<le> 10 \<and> 0 \<le> deletions_of 10 5 3"
  using plan_invariant [of 10 50 3] plan_invariant [of 10 5 3]
  by (simp add: deletions_of_def keep_clamped_def)

section \<open>The chunk partition\<close>



section \<open>Dry runs\<close>

text \<open>
  C4. In a dry run no \<open>executions/delete\<close> request is sent, whatever the remote
  answers and also when the run ends in an exception; a count that is returned is 0; and
  0 is returned whenever the history can be read and the chunk size is not 0.
\<close>

theorem dry_run_deletes_nothing:
  assumes run: "purge_history c p jf keep cs maxd True w = (r, w')"
  shows "(\<exists>evs. trace w' = trace w @ evs \<and> post_batches evs = [])
       \<and> (\<forall>n. r = Inr n \<longrightarrow> n = 0)
       \<and> (reads_ok c \<and> cs \<noteq> 0 \<longrightarrow> r = Inr 0)"
proof -
  obtain r1 w1 where t: "get_history_total c p jf w = (r1, w1)"
    by (cases "get_history_total c p jf w")
  have a: "(\<exists>evs. trace w' = trace w @ evs \<and> post_batches evs = []) \<and> (\<forall>n. r = Inr n \<longrightarrow> n = 0)"
  proof (cases r1)
    case (Inl e)
    with t run have "r = Inl e" "w' = w1" by (simp_all add: purge_history_def)
    with get_history_total_trace[OF t] show ?thesis by simp
  next
    case (Inr total')
    with t have t': "get_history_total c p jf w = (Inr total', w1)" by simp
    from purge_history_batches[OF run t'] get_history_total_trace[OF t']
    show ?thesis by auto
  qed
  have "r = Inr 0" if "reads_ok c" "cs \<noteq> 0"
  proof -
    from purge_history_ok[of c True cs p jf keep maxd w] that run
    obtain n where "r = Inr n" by auto
    with a show ?thesis by simp
  qed
  with a show ?thesis by blast
qed

text \<open>
  A dry run on the project with 55 executions: both batches are found and logged, nothing
  is posted, the remote keeps all 55, and the count is 0.
\<close>

theorem dry_run_deletes_nothing_witness:
  "purge_history (sample_remote 0 []) ''p'' None 20 20 1000 True (start [0..54]) =
     (Inr 0, \<lparr>server = [0..54], trace =
       [EvGet (request_of ''p'' None 0 0), EvInfoPlan 35 55,
        EvGet (request_of ''p'' None 35 20), EvInfoPurge 20 [35..54], EvSleep,
        EvGet (request_of ''p'' None 20 15), EvInfoPurge 15 [20..34]]\<rparr>)
   \<and> reads_ok (sample_remote 0 []) \<and> (20::int) \<noteq> 0
   \<and> (\<exists>evs. [EvGet (request_of ''p'' None 0 0), EvInfoPlan 35 55,
        EvGet (request_of ''p'' None 35 20), EvInfoPurge 20 [35..54], EvSleep,
        EvGet (request_of ''p'' None 20 15), EvInfoPurge 15 [20..34]] = [] @ evs
        \<and> post_batches evs = [])"
proof -
  have run: "purge_history (sample_remote 0 []) ''p'' None 20 20 1000 True (start [0..54]) =
     (Inr 0, \<lparr>server = [0..54], trace =
       [EvGet (request_of ''p'' None 0 0), EvInfoPlan 35 55,
        EvGet (request_of ''p'' None 35 20), EvInfoPurge 20 [35..54], EvSleep,
        EvGet (request_of ''p'' None 20 15), EvInfoPurge 15 [20..34]]\<rparr>)"
    by code_simp
  show ?thesis
    using dry_run_deletes_nothing [OF run] run sample_reads_ok [of 0 "[]"]
    by (simp add: start_def)
qed

section \<open>Nothing to purge\<close>

text \<open>
  C7, as stated, fails when the cap is negative: the number of deletions is then the cap,
  \<open>divmod\<close> gives a positive remainder, and the remainder batch is fetched and
  deleted. A total of 5 with keep 10, cap \<open>-1\<close>, chunks of 20: the script asks for
  19 ids at offset \<open>-14\<close> and deletes what it gets, here all 5 executions.
\<close>

theorem nothing_to_purge_counterexample:
  "(5::int) \<le> 10
   \<and> purge_history (sample_remote 0 []) ''p'' None 10 20 (- 1) False (start [0..4]) =
     (Inr 5, \<lparr>server = [], trace =
       [EvGet (request_of ''p'' None 0 0), EvInfoPlan (- 1) 5,
        EvGet (request_of ''p'' None (- 14) 19), EvInfoPurge 5 [0, 1, 2, 3, 4],
        EvPost [0, 1, 2, 3, 4]]\<rparr>)"
  by code_simp

text \<open>
  C7, amended. If the cap is zero, or if the total is at most the keep count and the cap
  is not negative, the purge plans 0 deletions: after the count query it only writes its
  log line. It sends no further history request and no delete request, and returns 0
  (with a chunk size of 0 the \<open>divmod\<close> raises instead, as it does on every input).
\<close>

theorem nothing_to_purge:
  assumes total: "get_history_total c p jf w = (Inr t, w1)"
    and none: "maxd = 0 \<or> (t \<le> keep \<and> 0 \<le> maxd)"
  shows "purge_history c p jf keep cs maxd dry w =
           (if cs = 0 then Inl ZeroDivisionError else Inr 0, emit (EvInfoPlan 0 t) w1)
       \<and> get_requests (trace (emit (EvInfoPlan 0 t) w1)) = get_requests (trace w) @ [request_of p jf 0 0]
       \<and> post_batches (trace (emit (EvInfoPlan 0 t) w1)) = post_batches (trace w)"
proof -
  have d: "deletions_of t keep maxd = 0"
    using none by (auto simp: deletions_of_def keep_clamped_def)
  have "purge_history c p jf keep cs maxd dry w =
           (if cs = 0 then Inl ZeroDivisionError else Inr 0, emit (EvInfoPlan 0 t) w1)"
    using total d by (simp add: purge_history_def py_divmod_def py_range_def)
  then show ?thesis
    using get_history_total_trace[OF total] by (simp add: emit_def)
qed

text \<open>A total of 5 with keep 10 and a cap of 1000.\<close>

theorem nothing_to_purge_witness:
  "((1000::int) = 0 \<or> ((5::int) \<le> 10 \<and> (0::int) \<le> 1000))
   \<and> purge_history (sample_remote 0 []) ''p'' None 10 20 1000 False (start [0..4]) =
     (Inr 0, \<lparr>server = [0..4], trace = [EvGet (request_of ''p'' None 0 0), EvInfoPlan 0 5]\<rparr>)"
proof -
  have total: "get_history_total (sample_remote 0 []) ''p'' None (start [0..4])
      = (Inr 5, \<lparr>server = [0..4], trace = [EvGet (request_of ''p'' None 0 0)]\<rparr>)"
    by code_simp
  show ?thesis
    using nothing_to_purge [OF total, of 1000 10 20 False] by (simp add: emit_def)
qed

section \<open>The order of the chunks\<close>

text \<open>
  C2, as stated, fails. Round \<open>i\<close> of the loop reads at offset
  \<open>total - chunk_size * (i + 1)\<close>, so the offsets go down: the loop starts with the
  oldest chunk and works towards the records that are kept. With 100 executions, keep 20
  and chunks of 20 the offsets after the count query are 80, 60, 40, 20, not
  20, 40, 60, 80.
\<close>

theorem chunks_oldest_first_counterexample:
  "map rq_offset (get_requests (trace (snd
      (purge_history (sample_remote 0 []) ''p'' None 20 20 1000 False (start [0..99])))))
     = [0, 80, 60, 40, 20]
   \<and> [80, 60, 40, 20] \<noteq> [20, 40, 60, (80::int)]"
  by (simp add: run_100 request_of_def)

text \<open>
  C2, amended. In every run, with a chunk size of at least 1, the history requests of
  the full chunks are made in the order of the loop, round \<open>i\<close> at offset
  \<open>t - cs * (i + 1)\<close>: the offsets are strictly decreasing, from the oldest records
  towards the most recent eligible ones. A run that fails has made a prefix of these
  requests, a run that returns has made all of them and could read every answer.
  Each chunk that was fetched is deleted before the next is fetched: the batches handed
  to \<open>delete_executions\<close> are, in order, what the remote answered to the history
  requests, cut to the last \<open>cs\<close> ids for the first \<open>chunk_num\<close> of
  them; unless the run is dry every batch is posted; and on the wire a GET is followed by
  the POST of its batch before the next GET. With 100 executions, keep 20, a cap of 1000
  and chunks of 20, against the sample remote: 80 deletions are planned, the offsets are
  80, 60, 40, 20 in that order, each request brings 20 ids, and each batch is deleted
  before the next is read.
\<close>

theorem chunks_oldest_first:
  assumes total: "get_history_total c p jf w = (Inr t, w1)"
    and run: "purge_history c p jf keep cs maxd dry w = (r, w')"
    and cs: "1 \<le> cs"
  shows "(\<exists>evs. trace w' = trace w1 @ evs
     \<and> prefix (map rq_offset (take (nat (deletions_of t keep maxd div cs)) (get_requests evs)))
          (map (\<lambda>i. t - cs * (int i + 1)) [0..<nat (deletions_of t keep maxd div cs)])
     \<and> sorted_wrt (>) (map rq_offset (take (nat (deletions_of t keep maxd div cs)) (get_requests evs)))
     \<and> purge_batches evs =
          map (\<lambda>(rq, f). slice_from f (- cs))
            (take (nat (deletions_of t keep maxd div cs)) (fetched c (server w1) evs))
          @ map snd (drop (nat (deletions_of t keep maxd div cs)) (fetched c (server w1) evs))
     \<and> post_batches evs = (if dry then [] else purge_batches evs)
     \<and> wire evs = interleave (get_requests evs) (post_batches evs)
     \<and> (\<forall>n. r = Inr n \<longrightarrow>
           map rq_offset (take (nat (deletions_of t keep maxd div cs)) (get_requests evs))
             = map (\<lambda>i. t - cs * (int i + 1)) [0..<nat (deletions_of t keep maxd div cs)]
         \<and> map fst (fetched c (server w1) evs) = get_requests evs))
   \<and> purge_history (sample_remote 0 []) ''p'' None 20 20 1000 False (start [0..99]) =
      (Inr 80, \<lparr>server = [0..19], trace =
         [EvGet (request_of ''p'' None 0 0), EvInfoPlan 80 100,
          EvGet (request_of ''p'' None 80 20), EvInfoPurge 20 [80..99], EvPost [80..99], EvSleep,
          EvGet (request_of ''p'' None 60 20), EvInfoPurge 20 [60..79], EvPost [60..79], EvSleep,
          EvGet (request_of ''p'' None 40 20), EvInfoPurge 20 [40..59], EvPost [40..59], EvSleep,
          EvGet (request_of ''p'' None 20 20), EvInfoPurge 20 [20..39], EvPost [20..39], EvSleep]\<rparr>)
   \<and> fetched (sample_remote 0 []) [0..99]
       [EvInfoPlan 80 100,
        EvGet (request_of ''p'' None 80 20), EvInfoPurge 20 [80..99], EvPost [80..99], EvSleep,
        EvGet (request_of ''p'' None 60 20), EvInfoPurge 20 [60..79], EvPost [60..79], EvSleep,
        EvGet (request_of ''p'' None 40 20), EvInfoPurge 20 [40..59], EvPost [40..59], EvSleep,
        EvGet (request_of ''p'' None 20 20), EvInfoPurge 20 [20..39], EvPost [20..39], EvSleep]
      = [(request_of ''p'' None 80 20, [80..99]), (request_of ''p'' None 60 20, [60..79]),
         (request_of ''p'' None 40 20, [40..59]), (request_of ''p'' None 20 20, [20..39])]"
proof -
  let ?d = "deletions_of t keep maxd"
  let ?q = "nat (?d div cs)"
  let ?chunks = "map (chunk_request p jf t cs) (py_range (?d div cs))"
  let ?offs = "map (\<lambda>i. t - cs * (int i + 1)) [0..<?q]"
  from purge_history_requests[OF run total] obtain evs where
    evs: "trace w' = trace w1 @ EvInfoPlan ?d t # evs"
      "prefix (get_requests evs) (planned_requests p jf t cs ?d)"
      "\<forall>n. r = Inr n \<longrightarrow> get_requests evs = planned_requests p jf t cs ?d"
    by blast
  from purge_history_replay[OF run total] evs(1) have
    rep: "purge_batches evs =
          map (\<lambda>(rq, f). slice_from f (- cs)) (take ?q (fetched c (server w1) evs))
          @ map snd (drop ?q (fetched c (server w1) evs))"
      "post_batches evs = (if dry then [] else purge_batches evs)"
      "wire evs = interleave (get_requests evs) (post_batches evs)"
    by auto
  have len: "length ?chunks = ?q" by (simp add: py_range_def)
  obtain rest where planned: "planned_requests p jf t cs ?d = ?chunks @ rest"
    by (simp add: planned_requests_def)
  have "prefix (take ?q (get_requests evs)) ?chunks"
    using take_prefix_append[of "get_requests evs" ?chunks rest] evs(2) planned len by simp
  then have pre: "prefix (map rq_offset (take ?q (get_requests evs))) ?offs"
    using map_mono_prefix[of _ ?chunks rq_offset] chunk_offsets[of p jf t cs "?d div cs"] by metis
  have eq: "map rq_offset (take ?q (get_requests evs)) = ?offs
      \<and> map fst (fetched c (server w1) evs) = get_requests evs" if "r = Inr n" for n
  proof -
    from that evs(3) planned have "get_requests evs = ?chunks @ rest" by simp
    then have "take ?q (get_requests evs) = ?chunks" using len by simp
    moreover from that run have "purge_history c p jf keep cs maxd dry w = (Inr n, w')" by simp
    from purge_history_answers[OF this total evs(1)]
    have "map fst (fetched c (server w1) evs) = get_requests evs" .
    ultimately show ?thesis using chunk_offsets[of p jf t cs "?d div cs"] by simp
  qed
  have srt: "sorted_wrt (>) (map rq_offset (take ?q (get_requests evs)))"
    using sorted_wrt_prefix[OF pre chunk_offsets_descend[OF cs]] .
  let ?all = "EvInfoPlan ?d t # evs"
  have "\<exists>evs. trace w' = trace w1 @ evs
     \<and> prefix (map rq_offset (take ?q (get_requests evs))) ?offs
     \<and> sorted_wrt (>) (map rq_offset (take ?q (get_requests evs)))
     \<and> purge_batches evs =
          map (\<lambda>(rq, f). slice_from f (- cs)) (take ?q (fetched c (server w1) evs))
          @ map snd (drop ?q (fetched c (server w1) evs))
     \<and> post_batches evs = (if dry then [] else purge_batches evs)
     \<and> wire evs = interleave (get_requests evs) (post_batches evs)
     \<and> (\<forall>n. r = Inr n \<longrightarrow>
           map rq_offset (take ?q (get_requests evs)) = ?offs
         \<and> map fst (fetched c (server w1) evs) = get_requests evs)"
    using evs(1) pre srt rep eq by (intro exI[of _ ?all]) simp
  then show ?thesis using run_100 answers_100 by (intro conjI)
qed

text \<open>The general part at the run with 100 executions.\<close>

theorem chunks_oldest_first_witness:
  "get_history_total (sample_remote 0 []) ''p'' None (start [0..99]) =
     (Inr 100, \<lparr>server = [0..99], trace = [EvGet (request_of ''p'' None 0 0)]\<rparr>)
   \<and> (1::int) \<le> 20
   \<and> (\<exists>evs :: int event list.
        [EvGet (request_of ''p'' None 0 0), EvInfoPlan 80 100,
          EvGet (request_of ''p'' None 80 20), EvInfoPurge 20 [80..99], EvPost [80..99], EvSleep,
          EvGet (request_of ''p'' None 60 20), EvInfoPurge 20 [60..79], EvPost [60..79], EvSleep,
          EvGet (request_of ''p'' None 40 20), EvInfoPurge 20 [40..59], EvPost [40..59], EvSleep,
          EvGet (request_of ''p'' None 20 20), EvInfoPurge 20 [20..39], EvPost [20..39], EvSleep]
        = [EvGet (request_of ''p'' None 0 0)] @ evs
      \<and> map rq_offset (take 4 (get_requests evs)) = [80, 60, 40, 20]
      \<and> sorted_wrt (>) (map rq_offset (take 4 (get_requests evs)))
      \<and> purge_batches evs =
          map (\<lambda>(rq, f). slice_from f (- 20)) (take 4 (fetched (sample_remote 0 []) [0..99] evs))
          @ map snd (drop 4 (fetched (sample_remote 0 []) [0..99] evs))
      \<and> post_batches evs = purge_batches evs
      \<and> wire evs = interleave (get_requests evs) (post_batches evs)
      \<and> map fst (fetched (sample_remote 0 []) [0..99] evs) = get_requests evs)"
proof -
  have c: "(1::int) \<le> 20" by simp
  have q: "nat (deletions_of 100 20 1000 div 20) = 4"
    by (simp add: deletions_of_def keep_clamped_def)
  have offs: "map (\<lambda>i. 100 - 20 * (int i + 1)) [0..<4] = [80, 60, 40, 20]"
    by code_simp
  have nd: "(if False then [] else xs) = xs" for xs :: "int list list" by simp
  note inst = chunks_oldest_first [OF total_100 run_100 c, THEN conjunct1,
      unfolded q offs world.select_convs nd]
  from inst obtain evs :: "int event list" where
    "[EvGet (request_of ''p'' None 0 0), EvInfoPlan 80 100,
          EvGet (request_of ''p'' None 80 20), EvInfoPurge 20 [80..99], EvPost [80..99], EvSleep,
          EvGet (request_of ''p'' None 60 20), EvInfoPurge 20 [60..79], EvPost [60..79], EvSleep,
          EvGet (request_of ''p'' None 40 20), EvInfoPurge 20 [40..59], EvPost [40..59], EvSleep,
          EvGet (request_of ''p'' None 20 20), EvInfoPurge 20 [20..39], EvPost [20..39], EvSleep]
        = [EvGet (request_of ''p'' None 0 0)] @ evs"
    "sorted_wrt (>) (map rq_offset (take 4 (get_requests evs)))"
    "purge_batches evs =
          map (\<lambda>(rq, f). slice_from f (- 20)) (take 4 (fetched (sample_remote 0 []) [0..99] evs))
          @ map snd (drop 4 (fetched (sample_remote 0 []) [0..99] evs))"
    "post_batches evs = purge_batches evs"
    "wire evs = interleave (get_requests evs) (post_batches evs)"
    "\<forall>n. (Inr 80 :: error + int) = Inr n \<longrightarrow>
        map rq_offset (take 4 (get_requests evs)) = [80, 60, 40, 20]
      \<and> map fst (fetched (sample_remote 0 []) [0..99] evs) = get_requests evs"
    by (elim exE conjE) (rule that)
  then have "\<exists>evs :: int event list.
        [EvGet (request_of ''p'' None 0 0), EvInfoPlan 80 100,
          EvGet (request_of ''p'' None 80 20), EvInfoPurge 20 [80..99], EvPost [80..99], EvSleep,
          EvGet (request_of ''p'' None 60 20), EvInfoPurge 20 [60..79], EvPost [60..79], EvSleep,
          EvGet (request_of ''p'' None 40 20), EvInfoPurge 20 [40..59], EvPost [40..59], EvSleep,
          EvGet (request_of ''p'' None 20 20), EvInfoPurge 20 [20..39], EvPost [20..39], EvSleep]
        = [EvGet (request_of ''p'' None 0 0)] @ evs
      \<and> map rq_offset (take 4 (get_requests evs)) = [80, 60, 40, 20]
      \<and> sorted_wrt (>) (map rq_offset (take 4 (get_requests evs)))
      \<and> purge_batches evs =
          map (\<lambda>(rq, f). slice_from f (- 20)) (take 4 (fetched (sample_remote 0 []) [0..99] evs))
          @ map snd (drop 4 (fetched (sample_remote 0 []) [0..99] evs))
      \<and> post_batches evs = purge_batches evs
      \<and> wire evs = interleave (get_requests evs) (post_batches evs)
      \<and> map fst (fetched (sample_remote 0 []) [0..99] evs) = get_requests evs"
    by blast
  with total_100 c show ?thesis by (intro conjI)
qed

section \<open>What remains after the full chunks\<close>

text \<open>
  C3, as stated, fails. With 55 executions, keep 20 and chunks of 20, the one full
  chunk is read at offset 35 and the remainder of 15 at offset 20, not at 15 and 0:
  offset 0 would be the most recent records, which are kept.
\<close>

theorem remainder_fetch_counterexample:
  "map rq_offset (get_requests (trace (snd
      (purge_history (sample_remote 0 []) ''p'' None 20 20 1000 False (start [0..54])))))
     = [0, 35, 20]
   \<and> [35, 20] \<noteq> [15, (0::int)]"
  by (simp add: run_55 request_of_def)

text \<open>
  C3, amended. When the remainder is positive (cap not negative, chunk size at least 1)
  and the run returns, the history requests after the count query are those of the full
  chunks and then exactly one more, for at most \<open>remainder\<close> ids at offset
  \<open>t - deletions\<close>, which is \<open>max (min t keep) (t - maxd)\<close>: directly below
  the last full chunk, and at the keep boundary when the cap does not bind. These are the
  oldest records still left once the full chunks are deleted. Every request was answered,
  and what the remote answered to the last one is, whole, the last batch handed to
  \<open>delete_executions\<close>; unless the run is dry it is posted, as the last request on
  the wire, and the count returned is the sum of the counts the remote confirmed. With
  55 executions, keep 20, a cap of 1000 and chunks of 20, against the sample remote:
  35 deletions, one full chunk at offset 35, a remainder batch of 15 at offset 20, and
  35 deleted.
\<close>

theorem remainder_fetch:
  assumes total: "get_history_total c p jf w = (Inr t, w1)"
    and run: "purge_history c p jf keep cs maxd dry w = (Inr n, w')"
    and maxd: "0 \<le> maxd" and cs: "1 \<le> cs"
    and remains: "0 < deletions_of t keep maxd mod cs"
  shows "(\<exists>evs. trace w' = trace w1 @ evs
     \<and> get_requests evs =
         map (\<lambda>i. request_of p jf (t - cs * (i + 1)) cs) (py_range (deletions_of t keep maxd div cs))
         @ [request_of p jf (t - deletions_of t keep maxd) (deletions_of t keep maxd mod cs)]
     \<and> t - deletions_of t keep maxd = max (min t keep) (t - maxd)
     \<and> map fst (fetched c (server w1) evs) = get_requests evs
     \<and> purge_batches evs =
          map (\<lambda>(rq, f). slice_from f (- cs)) (butlast (fetched c (server w1) evs))
          @ [snd (last (fetched c (server w1) evs))]
     \<and> post_batches evs = (if dry then [] else purge_batches evs)
     \<and> wire evs = interleave (get_requests evs) (post_batches evs)
     \<and> n = sum_list (confirmed c (server w1) evs))
   \<and> purge_history (sample_remote 0 []) ''p'' None 20 20 1000 False (start [0..54]) =
      (Inr 35, \<lparr>server = [0..19], trace =
         [EvGet (request_of ''p'' None 0 0), EvInfoPlan 35 55,
          EvGet (request_of ''p'' None 35 20), EvInfoPurge 20 [35..54], EvPost [35..54], EvSleep,
          EvGet (request_of ''p'' None 20 15), EvInfoPurge 15 [20..34], EvPost [20..34]]\<rparr>)
   \<and> fetched (sample_remote 0 []) [0..54]
       [EvInfoPlan 35 55,
        EvGet (request_of ''p'' None 35 20), EvInfoPurge 20 [35..54], EvPost [35..54], EvSleep,
        EvGet (request_of ''p'' None 20 15), EvInfoPurge 15 [20..34], EvPost [20..34]]
      = [(request_of ''p'' None 35 20, [35..54]), (request_of ''p'' None 20 15, [20..34])]"
proof -
  let ?d = "deletions_of t keep maxd"
  let ?q = "nat (?d div cs)"
  from purge_history_requests[OF run total] obtain evs where
    evs: "trace w' = trace w1 @ EvInfoPlan ?d t # evs"
      "get_requests evs = planned_requests p jf t cs ?d"
    by blast
  let ?F = "fetched c (server w1) evs"
  from purge_history_replay[OF run total] evs(1) remains have
    rep: "purge_batches evs =
          map (\<lambda>(rq, f). slice_from f (- cs)) (take ?q ?F) @ map snd (drop ?q ?F)"
      "post_batches evs = (if dry then [] else purge_batches evs)"
      "wire evs = interleave (get_requests evs) (post_batches evs)"
      "n = sum_list (confirmed c (server w1) evs)"
      "length ?F = Suc ?q"
    by auto
  have "drop ?q ?F = [last ?F]" using rep(5) by (rule drop_last_one)
  moreover have "take ?q ?F = butlast ?F" using rep(5) by (simp add: butlast_conv_take)
  ultimately have batches: "purge_batches evs =
          map (\<lambda>(rq, f). slice_from f (- cs)) (butlast ?F) @ [snd (last ?F)]"
    using rep(1) by simp
  have d0: "0 \<le> ?d" using maxd by (simp add: deletions_of_def keep_clamped_def)
  have off: "(if ?d div cs \<le> 0 then t else t - cs * (?d div cs)) - ?d mod cs = t - ?d"
    using remains_offset[OF d0 cs] .
  have reqs: "get_requests evs =
         map (\<lambda>i. request_of p jf (t - cs * (i + 1)) cs) (py_range (?d div cs))
         @ [request_of p jf (t - ?d) (?d mod cs)]"
    using evs(2) remains off by (simp add: planned_requests_def chunk_request_def)
  have bound: "t - ?d = max (min t keep) (t - maxd)"
    by (simp add: deletions_of_def keep_clamped_def)
  have ans: "map fst ?F = get_requests evs"
    using purge_history_answers[OF run total evs(1)] .
  have "\<exists>evs. trace w' = trace w1 @ evs
     \<and> get_requests evs =
         map (\<lambda>i. request_of p jf (t - cs * (i + 1)) cs) (py_range (?d div cs))
         @ [request_of p jf (t - ?d) (?d mod cs)]
     \<and> t - ?d = max (min t keep) (t - maxd)
     \<and> map fst (fetched c (server w1) evs) = get_requests evs
     \<and> purge_batches evs =
          map (\<lambda>(rq, f). slice_from f (- cs)) (butlast (fetched c (server w1) evs))
          @ [snd (last (fetched c (server w1) evs))]
     \<and> post_batches evs = (if dry then [] else purge_batches evs)
     \<and> wire evs = interleave (get_requests evs) (post_batches evs)
     \<and> n = sum_list (confirmed c (server w1) evs)"
    using evs(1) reqs bound ans batches rep(2,3,4)
    by (intro exI[of _ "EvInfoPlan ?d t # evs"]) simp
  then show ?thesis using run_55 answers_55 by (intro conjI)
qed

text \<open>The general part at the run with 55 executions.\<close>

theorem remainder_fetch_witness:
  "get_history_total (sample_remote 0 []) ''p'' None (start [0..54]) =
     (Inr 55, \<lparr>server = [0..54], trace = [EvGet (request_of ''p'' None 0 0)]\<rparr>)
   \<and> (0::int) \<le> 1000 \<and> (1::int) \<le> 20 \<and> 0 < deletions_of 55 20 1000 mod 20
   \<and> (\<exists>evs :: int event list.
        [EvGet (request_of ''p'' None 0 0), EvInfoPlan 35 55,
          EvGet (request_of ''p'' None 35 20), EvInfoPurge 20 [35..54], EvPost [35..54], EvSleep,
          EvGet (request_of ''p'' None 20 15), EvInfoPurge 15 [20..34], EvPost [20..34]]
        = [EvGet (request_of ''p'' None 0 0)] @ evs
      \<and> get_requests evs = [request_of ''p'' None 35 20, request_of ''p'' None 20 15]
      \<and> map fst (fetched (sample_remote 0 []) [0..54] evs) = get_requests evs
      \<and> purge_batches evs =
          map (\<lambda>(rq, f). slice_from f (- 20)) (butlast (fetched (sample_remote 0 []) [0..54] evs))
          @ [snd (last (fetched (sample_remote 0 []) [0..54] evs))]
      \<and> post_batches evs = purge_batches evs
      \<and> wire evs = interleave (get_requests evs) (post_batches evs)
      \<and> 35 = sum_list (confirmed (sample_remote 0 []) [0..54] evs))"
proof -
  have h: "(0::int) \<le> 1000" "(1::int) \<le> 20" "0 < deletions_of 55 20 1000 mod 20"
    by (simp_all add: deletions_of_def keep_clamped_def)
  have d: "deletions_of 55 20 1000 = 35" by (simp add: deletions_of_def keep_clamped_def)
  have rqs: "map (\<lambda>i. request_of ''p'' None (55 - 20 * (i + 1)) 20) (py_range (35 div 20))
       @ [request_of ''p'' None (55 - 35) (35 mod 20)]
     = [request_of ''p'' None 35 20, request_of ''p'' None 20 15]"
    by (simp add: py_range_def)
  have nd: "(if False then [] else xs) = xs" for xs :: "int list list" by simp
  note inst = remainder_fetch [OF total_55 run_55 h, THEN conjunct1,
      unfolded d rqs world.select_convs nd]
  from inst obtain evs :: "int event list" where
    "[EvGet (request_of ''p'' None 0 0), EvInfoPlan 35 55,
          EvGet (request_of ''p'' None 35 20), EvInfoPurge 20 [35..54], EvPost [35..54], EvSleep,
          EvGet (request_of ''p'' None 20 15), EvInfoPurge 15 [20..34], EvPost [20..34]]
        = [EvGet (request_of ''p'' None 0 0)] @ evs"
    "get_requests evs = [request_of ''p'' None 35 20, request_of ''p'' None 20 15]"
    "map fst (fetched (sample_remote 0 []) [0..54] evs) = get_requests evs"
    "purge_batches evs =
          map (\<lambda>(rq, f). slice_from f (- 20)) (butlast (fetched (sample_remote 0 []) [0..54] evs))
          @ [snd (last (fetched (sample_remote 0 []) [0..54] evs))]"
    "post_batches evs = purge_batches evs"
    "wire evs = interleave (get_requests evs) (post_batches evs)"
    "35 = sum_list (confirmed (sample_remote 0 []) [0..54] evs)"
    by (elim exE conjE) (rule that)
  then have "\<exists>evs :: int event list.
        [EvGet (request_of ''p'' None 0 0), EvInfoPlan 35 55,
          EvGet (request_of ''p'' None 35 20), EvInfoPurge 20 [35..54], EvPost [35..54], EvSleep,
          EvGet (request_of ''p'' None 20 15), EvInfoPurge 15 [20..34], EvPost [20..34]]
        = [EvGet (request_of ''p'' None 0 0)] @ evs
      \<and> get_requests evs = [request_of ''p'' None 35 20, request_of ''p'' None 20 15]
      \<and> map fst (fetched (sample_remote 0 []) [0..54] evs) = get_requests evs
      \<and> purge_batches evs =
          map (\<lambda>(rq, f). slice_from f (- 20)) (butlast (fetched (sample_remote 0 []) [0..54] evs))
          @ [snd (last (fetched (sample_remote 0 []) [0..54] evs))]
      \<and> post_batches evs = purge_batches evs
      \<and> wire evs = interleave (get_requests evs) (post_batches evs)
      \<and> 35 = sum_list (confirmed (sample_remote 0 []) [0..54] evs)"
    by blast
  with total_55 h show ?thesis by (intro conjI)
qed

section \<open>Partial failure\<close>

text \<open>
  C5. When the answer to a delete request can be read and says \<open>allsuccessful\<close> is
  false with a count of \<open>k\<close>, then \<open>delete_executions\<close> returns \<open>k\<close> and
  raises nothing, having logged the batch, sent the request and logged the error
  messages. In a run of \<open>purge_history\<close> that is not dry, on every path the error
  lines of the log are the messages of the delete answers that reported a partial failure,
  and every batch is what was fetched and is posted. When the run returns, the count it
  returns is the sum of the counts that the remote confirmed, one for every batch posted,
  whether the answer said \<open>allsuccessful\<close> or not, and all the planned history
  requests, for every full chunk and for the remainder, were made and answered. And
  against a remote whose answers can always be read, whatever they say in
  \<open>allsuccessful\<close>, a purge with a chunk size other than 0 does return.
\<close>

theorem partial_failure_continues:
  assumes total: "get_history_total c p jf w = (Inr t, w1)"
    and run: "purge_history c p jf keep cs maxd False w = (r, w')"
  shows "(\<forall>ids w0 fs s k.
            delete_POST c (server w0) ids = (Inr fs, s)
          \<and> successful_count fs = Some k \<and> allsuccessful fs = Some False \<longrightarrow>
            delete_executions c ids False w0 =
              (Inr k, \<lparr>server = s, trace = trace w0 @
                 [EvInfoPurge (length ids) ids, EvPost ids, EvError (set (messages fs))]\<rparr>))
     \<and> (\<exists>evs. trace w' = trace w1 @ evs
          \<and> error_logs evs = reported c (server w1) evs
          \<and> post_batches evs = purge_batches evs
          \<and> purge_batches evs =
               map (\<lambda>(rq, f). slice_from f (- cs))
                 (take (nat (deletions_of t keep maxd div cs)) (fetched c (server w1) evs))
               @ map snd (drop (nat (deletions_of t keep maxd div cs)) (fetched c (server w1) evs))
          \<and> (\<forall>n. r = Inr n \<longrightarrow>
                n = sum_list (confirmed c (server w1) evs)
              \<and> length (confirmed c (server w1) evs) = length (post_batches evs)
              \<and> get_requests evs = planned_requests p jf t cs (deletions_of t keep maxd)
              \<and> map fst (fetched c (server w1) evs) = get_requests evs))
     \<and> (reads_ok c \<and> deletes_ok c \<and> cs \<noteq> 0 \<longrightarrow> (\<exists>n. r = Inr n))"
proof -
  let ?d = "deletions_of t keep maxd"
  have a: "delete_executions c ids False w0 =
              (Inr k, \<lparr>server = s, trace = trace w0 @
                 [EvInfoPurge (length ids) ids, EvPost ids, EvError (set (messages fs))]\<rparr>)"
    if "delete_POST c (server w0) ids = (Inr fs, s)" "successful_count fs = Some k"
      "allsuccessful fs = Some False" for ids w0 fs s k
    using that by (simp add: delete_executions_def emit_def Let_def)
  from purge_history_requests[OF run total] obtain evs where
    evs: "trace w' = trace w1 @ EvInfoPlan ?d t # evs"
      "\<forall>n. r = Inr n \<longrightarrow> get_requests evs = planned_requests p jf t cs ?d"
    by blast
  from purge_history_replay[OF run total] evs(1) have
    rep: "purge_batches evs =
          map (\<lambda>(rq, f). slice_from f (- cs)) (take (nat (?d div cs)) (fetched c (server w1) evs))
          @ map snd (drop (nat (?d div cs)) (fetched c (server w1) evs))"
      "post_batches evs = purge_batches evs"
      "error_logs evs = reported c (server w1) evs"
      "\<forall>n. r = Inr n \<longrightarrow> n = sum_list (confirmed c (server w1) evs)
          \<and> length (confirmed c (server w1) evs) = length (post_batches evs)"
    by auto
  have ans: "map fst (fetched c (server w1) evs) = get_requests evs" if "r = Inr n" for n
  proof -
    from that run have "purge_history c p jf keep cs maxd False w = (Inr n, w')" by simp
    from purge_history_answers[OF this total evs(1)] show ?thesis .
  qed
  have b: "\<exists>evs. trace w' = trace w1 @ evs
          \<and> error_logs evs = reported c (server w1) evs
          \<and> post_batches evs = purge_batches evs
          \<and> purge_batches evs =
               map (\<lambda>(rq, f). slice_from f (- cs))
                 (take (nat (?d div cs)) (fetched c (server w1) evs))
               @ map snd (drop (nat (?d div cs)) (fetched c (server w1) evs))
          \<and> (\<forall>n. r = Inr n \<longrightarrow>
                n = sum_list (confirmed c (server w1) evs)
              \<and> length (confirmed c (server w1) evs) = length (post_batches evs)
              \<and> get_requests evs = planned_requests p jf t cs ?d
              \<and> map fst (fetched c (server w1) evs) = get_requests evs)"
    using evs rep ans by (intro exI[of _ "EvInfoPlan ?d t # evs"]) simp
  have c: "\<exists>n. r = Inr n" if "reads_ok c" "deletes_ok c" "cs \<noteq> 0"
    using purge_history_ok[of c False cs p jf keep maxd w] that run by auto
  from a b c show ?thesis by blast
qed

text \<open>
  100 executions of which two of the oldest 20 are protected: the remote confirms 18 of
  the first batch of 20 and the message is logged, the three other chunks are fetched and
  deleted, and the purge returns 18 + 20 + 20 + 20 = 78.
\<close>

theorem partial_failure_continues_witness:
  "get_history_total (sample_remote 0 [81, 85]) ''p'' None (start [0..99]) =
     (Inr 100, \<lparr>server = [0..99], trace = [EvGet (request_of ''p'' None 0 0)]\<rparr>)
   \<and> purge_history (sample_remote 0 [81, 85]) ''p'' None 20 20 1000 False (start [0..99]) =
     (Inr 78, \<lparr>server = [0..19] @ [81, 85], trace =
        [EvGet (request_of ''p'' None 0 0), EvInfoPlan 80 100,
         EvGet (request_of ''p'' None 80 20), EvInfoPurge 20 [80..99], EvPost [80..99],
         EvError {Some ''Unauthorized: Delete execution in project xxx''}, EvSleep,
         EvGet (request_of ''p'' None 60 20), EvInfoPurge 20 [60..79], EvPost [60..79], EvSleep,
         EvGet (request_of ''p'' None 40 20), EvInfoPurge 20 [40..59], EvPost [40..59], EvSleep,
         EvGet (request_of ''p'' None 20 20), EvInfoPurge 20 [20..39], EvPost [20..39], EvSleep]\<rparr>)
   \<and> delete_executions (sample_remote 0 [81, 85]) [80..99] False
        \<lparr>server = [0..99], trace = [EvGet (request_of ''p'' None 80 20)]\<rparr> =
       (Inr 18, \<lparr>server = [0..79] @ [81, 85], trace =
          [EvGet (request_of ''p'' None 80 20), EvInfoPurge 20 [80..99], EvPost [80..99],
           EvError {Some ''Unauthorized: Delete execution in project xxx''}]\<rparr>)
   \<and> reads_ok (sample_remote 0 [81, 85]) \<and> deletes_ok (sample_remote 0 [81, 85])
   \<and> (20::int) \<noteq> 0
   \<and> (\<exists>evs :: int event list.
        [EvGet (request_of ''p'' None 0 0), EvInfoPlan 80 100,
         EvGet (request_of ''p'' None 80 20), EvInfoPurge 20 [80..99], EvPost [80..99],
         EvError {Some ''Unauthorized: Delete execution in project xxx''}, EvSleep,
         EvGet (request_of ''p'' None 60 20), EvInfoPurge 20 [60..79], EvPost [60..79], EvSleep,
         EvGet (request_of ''p'' None 40 20), EvInfoPurge 20 [40..59], EvPost [40..59], EvSleep,
         EvGet (request_of ''p'' None 20 20), EvInfoPurge 20 [20..39], EvPost [20..39], EvSleep]
          = [EvGet (request_of ''p'' None 0 0)] @ evs
      \<and> error_logs evs = reported (sample_remote 0 [81, 85]) [0..99] evs
      \<and> error_logs evs = [{Some ''Unauthorized: Delete execution in project xxx''}]
      \<and> post_batches evs = purge_batches evs
      \<and> 78 = sum_list (confirmed (sample_remote 0 [81, 85]) [0..99] evs)
      \<and> confirmed (sample_remote 0 [81, 85]) [0..99] evs = [18, 20, 20, 20]
      \<and> length (confirmed (sample_remote 0 [81, 85]) [0..99] evs) = length (post_batches evs)
      \<and> get_requests evs = planned_requests ''p'' None 100 20 80
      \<and> map fst (fetched (sample_remote 0 [81, 85]) [0..99] evs) = get_requests evs)"
proof -
  let ?c = "sample_remote 0 [81, 85]"
  let ?w0 = "\<lparr>server = [0..99], trace = [EvGet (request_of ''p'' None 80 20)]\<rparr>
               :: (int list, int) world"
  let ?fs = "\<lparr>successful_count = Some 18, allsuccessful = Some False,
              messages = [Some ''Unauthorized: Delete execution in project xxx'']\<rparr>"
  have total: "get_history_total ?c ''p'' None (start [0..99]) =
     (Inr 100, \<lparr>server = [0..99], trace = [EvGet (request_of ''p'' None 0 0)]\<rparr>)"
    by code_simp
  have post: "delete_POST ?c (server ?w0) [80..99] = (Inr ?fs, [0..79] @ [81, 85])"
    by code_simp
  have count: "successful_count ?fs = Some 18" and partial: "allsuccessful ?fs = Some False"
    by simp_all
  have ok: "reads_ok ?c" "deletes_ok ?c" "(20::int) \<noteq> 0"
    using sample_reads_ok sample_deletes_ok by simp_all
  have d: "deletions_of 100 20 1000 = 80" by (simp add: deletions_of_def keep_clamped_def)
  have len: "length [80..(99::int)] = 20" by simp
  have msgs: "set (messages ?fs) = {Some ''Unauthorized: Delete execution in project xxx''}"
    by simp
  have tr: "trace ?w0 @ [EvInfoPurge 20 [80..99], EvPost [80..99],
              EvError {Some ''Unauthorized: Delete execution in project xxx''}]
      = [EvGet (request_of ''p'' None 80 20), EvInfoPurge 20 [80..99], EvPost [80..99],
           EvError {Some ''Unauthorized: Delete execution in project xxx''}]"
    by simp
  note inst = partial_failure_continues [OF total run_partial, unfolded d world.select_convs]
  from inst post count partial
  have "delete_executions ?c [80..99] False ?w0 =
              (Inr 18, \<lparr>server = [0..79] @ [81, 85], trace = trace ?w0 @
                 [EvInfoPurge (length [80..(99::int)]) [80..99], EvPost [80..99],
                  EvError (set (messages ?fs))]\<rparr>)"
    by blast
  then have a: "delete_executions ?c [80..99] False ?w0 =
       (Inr 18, \<lparr>server = [0..79] @ [81, 85], trace =
          [EvGet (request_of ''p'' None 80 20), EvInfoPurge 20 [80..99], EvPost [80..99],
           EvError {Some ''Unauthorized: Delete execution in project xxx''}]\<rparr>)"
    unfolding len msgs tr .
  from inst obtain evs :: "int event list" where
    e: "[EvGet (request_of ''p'' None 0 0), EvInfoPlan 80 100,
         EvGet (request_of ''p'' None 80 20), EvInfoPurge 20 [80..99], EvPost [80..99],
         EvError {Some ''Unauthorized: Delete execution in project xxx''}, EvSleep,
         EvGet (request_of ''p'' None 60 20), EvInfoPurge 20 [60..79], EvPost [60..79], EvSleep,
         EvGet (request_of ''p'' None 40 20), EvInfoPurge 20 [40..59], EvPost [40..59], EvSleep,
         EvGet (request_of ''p'' None 20 20), EvInfoPurge 20 [20..39], EvPost [20..39], EvSleep]
          = [EvGet (request_of ''p'' None 0 0)] @ evs"
      "error_logs evs = reported ?c [0..99] evs"
      "post_batches evs = purge_batches evs"
      "\<forall>n. (Inr 78 :: error + int) = Inr n \<longrightarrow>
                n = sum_list (confirmed ?c [0..99] evs)
              \<and> length (confirmed ?c [0..99] evs) = length (post_batches evs)
              \<and> get_requests evs = planned_requests ''p'' None 100 20 80
              \<and> map fst (fetched ?c [0..99] evs) = get_requests evs"
    by (elim exE conjE) (rule that)
  from e(1) have evs: "evs = [EvInfoPlan 80 100,
         EvGet (request_of ''p'' None 80 20), EvInfoPurge 20 [80..99], EvPost [80..99],
         EvError {Some ''Unauthorized: Delete execution in project xxx''}, EvSleep,
         EvGet (request_of ''p'' None 60 20), EvInfoPurge 20 [60..79], EvPost [60..79], EvSleep,
         EvGet (request_of ''p'' None 40 20), EvInfoPurge 20 [40..59], EvPost [40..59], EvSleep,
         EvGet (request_of ''p'' None 20 20), EvInfoPurge 20 [20..39], EvPost [20..39], EvSleep]"
    by (simp only: append.simps list.inject)
  have cf: "confirmed ?c [0..99] evs = [18, 20, 20, 20]"
    unfolding evs by (rule confirmed_partial)
  have el: "error_logs evs = [{Some ''Unauthorized: Delete execution in project xxx''}]"
    unfolding evs by simp
  from e cf el have "\<exists>evs :: int event list.
        [EvGet (request_of ''p'' None 0 0), EvInfoPlan 80 100,
         EvGet (request_of ''p'' None 80 20), EvInfoPurge 20 [80..99], EvPost [80..99],
         EvError {Some ''Unauthorized: Delete execution in project xxx''}, EvSleep,
         EvGet (request_of ''p'' None 60 20), EvInfoPurge 20 [60..79], EvPost [60..79], EvSleep,
         EvGet (request_of ''p'' None 40 20), EvInfoPurge 20 [40..59], EvPost [40..59], EvSleep,
         EvGet (request_of ''p'' None 20 20), EvInfoPurge 20 [20..39], EvPost [20..39], EvSleep]
          = [EvGet (request_of ''p'' None 0 0)] @ evs
      \<and> error_logs evs = reported ?c [0..99] evs
      \<and> error_logs evs = [{Some ''Unauthorized: Delete execution in project xxx''}]
      \<and> post_batches evs = purge_batches evs
      \<and> 78 = sum_list (confirmed ?c [0..99] evs)
      \<and> confirmed ?c [0..99] evs = [18, 20, 20, 20]
      \<and> length (confirmed ?c [0..99] evs) = length (post_batches evs)
      \<and> get_requests evs = planned_requests ''p'' None 100 20 80
      \<and> map fst (fetched ?c [0..99] evs) = get_requests evs"
    by blast
  with total run_partial a ok show ?thesis by (intro conjI)
qed

section \<open>The kept records\<close>

text \<open>
  C9. When the total, the keep count and the cap are not negative and the chunk size is
  at least 1, every history request after the count query, for a full chunk or for the
  remainder, in a run that returns or fails, has an offset of at least
  \<open>min t keep\<close> and at least 0. So when every answer that the remote gave to these
  requests holds only ids that the snapshot \<open>snap\<close> has at or after the requested
  offset, every id of every batch handed to \<open>delete_executions\<close> is at or after
  position \<open>min t keep\<close> of the snapshot; and when the ids of the snapshot are
  distinct, none of its \<open>min t keep\<close> most recent ids is in any batch; when the
  snapshot moreover has \<open>t\<close> ids, these are its \<open>keep\<close> most recent ids (all
  of them when \<open>keep\<close> exceeds \<open>t\<close>). Nothing is assumed about what the
  delete requests do to the remote.
\<close>

theorem fetches_beyond_keep:
  assumes total: "get_history_total c p jf w = (Inr t, w1)"
    and run: "purge_history c p jf keep cs maxd dry w = (r, w')"
    and t: "0 \<le> t" and keep: "0 \<le> keep" and maxd: "0 \<le> maxd" and cs: "1 \<le> cs"
  shows "\<exists>evs. trace w' = trace w1 @ evs
     \<and> (\<forall>rq \<in> set (get_requests evs). min t keep \<le> rq_offset rq \<and> 0 \<le> rq_offset rq)
     \<and> ((\<forall>(rq, ids) \<in> set (fetched c (server w1) evs).
             set ids \<subseteq> set (drop (nat (rq_offset rq)) snap))
          \<longrightarrow> (\<forall>b \<in> set (purge_batches evs).
                 set b \<subseteq> set (drop (nat (min t keep)) snap)
               \<and> (distinct snap \<longrightarrow> set b \<inter> set (take (nat (min t keep)) snap) = {})
               \<and> (distinct snap \<and> length snap = nat t \<longrightarrow> set b \<inter> set (take (nat keep) snap) = {})))"
proof -
  let ?d = "deletions_of t keep maxd"
  let ?lo = "min t keep"
  let ?q = "nat (?d div cs)"
  have d: "0 \<le> ?d" using maxd by (simp add: deletions_of_def keep_clamped_def)
  have lo: "0 \<le> ?lo" "?lo \<le> t - ?d"
    using t keep by (simp_all add: deletions_of_def keep_clamped_def)
  from purge_history_requests[OF run total] obtain evs where
    evs: "trace w' = trace w1 @ EvInfoPlan ?d t # evs"
      "prefix (get_requests evs) (planned_requests p jf t cs ?d)"
    by blast
  let ?F = "fetched c (server w1) evs"
  from purge_history_replay[OF run total] evs(1) have
    batches: "purge_batches evs =
          map (\<lambda>(rq, f). slice_from f (- cs)) (take ?q ?F) @ map snd (drop ?q ?F)"
    by auto
  have offs: "?lo \<le> rq_offset rq \<and> 0 \<le> rq_offset rq" if "rq \<in> set (get_requests evs)" for rq
  proof -
    from that set_mono_prefix[OF evs(2)] have "rq \<in> set (planned_requests p jf t cs ?d)" by blast
    from planned_offsets[OF d cs this] lo show ?thesis by linarith
  qed
  have from_fetch: "\<exists>rq f. (rq, f) \<in> set ?F \<and> set b \<subseteq> set f" if "b \<in> set (purge_batches evs)" for b
  proof -
    from that batches consider
      (chunk) rq f where "(rq, f) \<in> set (take ?q ?F)" "b = slice_from f (- cs)"
      | (rest) rq f where "(rq, f) \<in> set (drop ?q ?F)" "b = f"
      by auto
    then show ?thesis
    proof cases
      case chunk
      then show ?thesis using slice_from_subset[of f "- cs"] by (blast dest: in_set_takeD)
    next
      case rest
      then show ?thesis by (blast dest: in_set_dropD)
    qed
  qed
  have safe: "set b \<subseteq> set (drop (nat ?lo) snap)
               \<and> (distinct snap \<longrightarrow> set b \<inter> set (take (nat ?lo) snap) = {})
               \<and> (distinct snap \<and> length snap = nat t \<longrightarrow> set b \<inter> set (take (nat keep) snap) = {})"
    if h: "\<forall>(rq, ids) \<in> set ?F. set ids \<subseteq> set (drop (nat (rq_offset rq)) snap)"
      and b: "b \<in> set (purge_batches evs)" for b
  proof -
    from from_fetch[OF b] obtain rq f where f: "(rq, f) \<in> set ?F" "set b \<subseteq> set f" by blast
    from f(1) have "rq \<in> set (map fst ?F)" by force
    with fetched_requests[of c "server w1" evs] have "rq \<in> set (get_requests evs)" by blast
    from offs[OF this] have "nat ?lo \<le> nat (rq_offset rq)" by (blast intro: nat_mono)
    then have "set (drop (nat (rq_offset rq)) snap) \<subseteq> set (drop (nat ?lo) snap)"
      by (rule set_drop_subset_set_drop)
    moreover from h f(1) have "set f \<subseteq> set (drop (nat (rq_offset rq)) snap)" by blast
    ultimately have sub: "set b \<subseteq> set (drop (nat ?lo) snap)" using f(2) by blast
    have kept: "set b \<inter> set (take (nat ?lo) snap) = {}" if "distinct snap"
    proof -
      from that have "set (take (nat ?lo) snap) \<inter> set (drop (nat ?lo) snap) = {}"
        by (simp add: set_take_disj_set_drop_if_distinct)
      with sub show ?thesis by blast
    qed
    have "take (nat keep) snap = take (nat ?lo) snap" if "length snap = nat t"
    proof (cases "keep \<le> t")
      case True
      then show ?thesis by (simp add: min_def)
    next
      case False
      with that show ?thesis by (simp add: min_def)
    qed
    with sub kept show ?thesis by simp
  qed
  let ?all = "EvInfoPlan ?d t # evs"
  have obs: "get_requests ?all = get_requests evs" "purge_batches ?all = purge_batches evs"
    "fetched c (server w1) ?all = ?F" by simp_all
  show ?thesis
    using evs(1) offs safe unfolding obs[symmetric] by (intro exI[of _ ?all]) blast
qed

text \<open>
  Five executions, keep 2, chunks of 2, against the sample remote, which deletes what it
  is asked to. The requests are at offsets 3 and 2, the answers are the ids 3, 4 and then
  2, and the ids 0 and 1 are in no batch.
\<close>

theorem fetches_beyond_keep_witness:
  "get_history_total (sample_remote 0 []) ''p'' None (start [0..4]) =
     (Inr 5, \<lparr>server = [0..4], trace = [EvGet (request_of ''p'' None 0 0)]\<rparr>)
   \<and> purge_history (sample_remote 0 []) ''p'' None 2 2 10 False (start [0..4]) =
     (Inr 3, \<lparr>server = [0, 1], trace =
        [EvGet (request_of ''p'' None 0 0), EvInfoPlan 3 5,
         EvGet (request_of ''p'' None 3 2), EvInfoPurge 2 [3, 4], EvPost [3, 4], EvSleep,
         EvGet (request_of ''p'' None 2 1), EvInfoPurge 1 [2], EvPost [2]]\<rparr>)
   \<and> (0::int) \<le> 5 \<and> (0::int) \<le> 2 \<and> (0::int) \<le> 10 \<and> (1::int) \<le> 2
   \<and> (\<exists>evs :: int event list.
        [EvGet (request_of ''p'' None 0 0), EvInfoPlan 3 5,
         EvGet (request_of ''p'' None 3 2), EvInfoPurge 2 [3, 4], EvPost [3, 4], EvSleep,
         EvGet (request_of ''p'' None 2 1), EvInfoPurge 1 [2], EvPost [2]]
           = [EvGet (request_of ''p'' None 0 0)] @ evs
        \<and> fetched (sample_remote 0 []) [0..4] evs
             = [(request_of ''p'' None 3 2, [3, 4]), (request_of ''p'' None 2 1, [2])]
        \<and> (\<forall>(rq, ids) \<in> set (fetched (sample_remote 0 []) [0..4] evs).
              set ids \<subseteq> set (drop (nat (rq_offset rq)) [0..4]))
        \<and> (\<forall>rq \<in> set (get_requests evs). min 5 2 \<le> rq_offset rq \<and> 0 \<le> rq_offset rq)
        \<and> (\<forall>b \<in> set (purge_batches evs).
               set b \<subseteq> set (drop (nat (min 5 2)) [0..4])
             \<and> set b \<inter> set (take (nat (min 5 2)) [0..4]) = {}
             \<and> set b \<inter> set (take (nat 2) [0..4]) = {}))"
proof -
  let ?c = "sample_remote 0 []"
  have total: "get_history_total ?c ''p'' None (start [0..4]) =
     (Inr 5, \<lparr>server = [0..4], trace = [EvGet (request_of ''p'' None 0 0)]\<rparr>)"
    by code_simp
  have h: "(0::int) \<le> 5" "(0::int) \<le> 2" "(0::int) \<le> 10" "(1::int) \<le> 2" by simp_all
  note inst = fetches_beyond_keep [OF total run_5 h, of "[0..4]", unfolded world.select_convs]
  from inst obtain evs :: "int event list" where
    e: "[EvGet (request_of ''p'' None 0 0), EvInfoPlan 3 5,
         EvGet (request_of ''p'' None 3 2), EvInfoPurge 2 [3, 4], EvPost [3, 4], EvSleep,
         EvGet (request_of ''p'' None 2 1), EvInfoPurge 1 [2], EvPost [2]]
           = [EvGet (request_of ''p'' None 0 0)] @ evs"
      "\<forall>rq \<in> set (get_requests evs). min 5 2 \<le> rq_offset rq \<and> 0 \<le> rq_offset rq"
      "(\<forall>(rq, ids) \<in> set (fetched ?c [0..4] evs).
             set ids \<subseteq> set (drop (nat (rq_offset rq)) [0..4]))
          \<longrightarrow> (\<forall>b \<in> set (purge_batches evs).
                 set b \<subseteq> set (drop (nat (min 5 2)) [0..4])
               \<and> (distinct [0..(4::int)] \<longrightarrow> set b \<inter> set (take (nat (min 5 2)) [0..4]) = {})
               \<and> (distinct [0..(4::int)] \<and> length [0..(4::int)] = nat 5
                    \<longrightarrow> set b \<inter> set (take (nat 2) [0..4]) = {}))"
    by (elim exE conjE) (rule that)
  from e(1) have evs: "evs = [EvInfoPlan 3 5,
         EvGet (request_of ''p'' None 3 2), EvInfoPurge 2 [3, 4], EvPost [3, 4], EvSleep,
         EvGet (request_of ''p'' None 2 1), EvInfoPurge 1 [2], EvPost [2]]"
    by (simp only: append.simps list.inject)
  have F: "fetched ?c [0..4] evs
             = [(request_of ''p'' None 3 2, [3, 4]), (request_of ''p'' None 2 1, [2])]"
    unfolding evs by (rule answers_5)
  have dr: "set (drop 3 [0..4]) = {3, 4::int}" "set (drop 2 [0..4]) = {2, 3, 4::int}"
    by code_simp+
  have hyp: "\<forall>(rq, ids) \<in> set (fetched ?c [0..4] evs).
              set ids \<subseteq> set (drop (nat (rq_offset rq)) [0..4])"
    unfolding F by (simp add: request_of_def dr)
  have dist: "distinct [0..(4::int)]" by simp
  have len: "length [0..(4::int)] = nat 5" by code_simp
  from e(3) hyp dist len have safe: "\<forall>b \<in> set (purge_batches evs).
               set b \<subseteq> set (drop (nat (min 5 2)) [0..4])
             \<and> set b \<inter> set (take (nat (min 5 2)) [0..4]) = {}
             \<and> set b \<inter> set (take (nat 2) [0..4]) = {}"
    by blast
  from e(1,2) F hyp safe have "\<exists>evs :: int event list.
        [EvGet (request_of ''p'' None 0 0), EvInfoPlan 3 5,
         EvGet (request_of ''p'' None 3 2), EvInfoPurge 2 [3, 4], EvPost [3, 4], EvSleep,
         EvGet (request_of ''p'' None 2 1), EvInfoPurge 1 [2], EvPost [2]]
           = [EvGet (request_of ''p'' None 0 0)] @ evs
        \<and> fetched ?c [0..4] evs
             = [(request_of ''p'' None 3 2, [3, 4]), (request_of ''p'' None 2 1, [2])]
        \<and> (\<forall>(rq, ids) \<in> set (fetched ?c [0..4] evs).
              set ids \<subseteq> set (drop (nat (rq_offset rq)) [0..4]))
        \<and> (\<forall>rq \<in> set (get_requests evs). min 5 2 \<le> rq_offset rq \<and> 0 \<le> rq_offset rq)
        \<and> (\<forall>b \<in> set (purge_batches evs).
               set b \<subseteq> set (drop (nat (min 5 2)) [0..4])
             \<and> set b \<inter> set (take (nat (min 5 2)) [0..4]) = {}
             \<and> set b \<inter> set (take (nat 2) [0..4]) = {})"
    by blast
  with total run_5 h show ?thesis by (intro conjI)
qed

section \<open>The size of a batch\<close>




end
